theory Spec2Isabelle
  imports Main "HOL-Library.Sublist"
begin

section \<open>The shift booker of \<open>nhs_shift_booker.py\<close> as state-passing functions\<close>

text \<open>
  The program drives a browser through Selenium. Everything the browser, the clock and
  the operating system do is outside the program, so the model takes it as a parameter:
  a world of an arbitrary type \<open>'w\<close> and a record of operations on it, one per library
  call of the source. Every operation returns either a value or an exception, and the
  next world. Theorems quantify over all worlds and all such operations.

  Python separates \<open>Exception\<close> from the other \<open>BaseException\<close>s: \<open>except Exception\<close>
  lets \<open>KeyboardInterrupt\<close> through, a bare \<open>except:\<close> catches both. The source relies
  on the difference, so the model keeps it.
\<close>

datatype exn = Exception string | KeyboardInterrupt

datatype level = DEBUG | INFO | WARNING | ERROR

datatype locator = XPATH | TAG_NAME

type_synonym drv = nat
type_synonym elem = nat

text \<open>Values stored in the dictionaries of the source (shift records, booking records).\<close>

datatype pyval = VInt int | VElem elem | VStr string

type_synonym pydict = "string \<rightharpoonup> pyval"

text \<open>
  The module \<open>config\<close> is imported by the source but is not part of it: its names are
  the fields of a record that every operation takes as a parameter.
\<close>

record config =
  NHS_EMAIL :: string
  NHS_PASSWORD :: string
  PREFERRED_LOCATION :: string
  PREFERRED_SHIFT_TYPES :: "string list"
  SHIFT_TIME_START :: string
  SHIFT_TIME_END :: string
  MAX_SHIFTS_TO_BOOK :: int
  SEARCH_INTERVAL_MINUTES :: int
  HEADLESS_MODE :: bool
  MAX_RETRY_ATTEMPTS :: int
  RETRY_DELAY_SECONDS :: int
  ELEMENT_WAIT_TIME :: int

text \<open>
  The library calls of the source. \<open>start_chrome\<close> stands for the body of the
  \<open>try\<close> of \<open>setup_driver\<close> up to the construction of the driver; \<open>sleep_interrupted\<close>
  tells whether an interrupt arrived during a \<open>time.sleep\<close>; \<open>now_strftime\<close> is
  \<open>datetime.now().strftime\<close>.
\<close>

record 'w env =
  start_chrome :: "bool \<Rightarrow> int \<Rightarrow> 'w \<Rightarrow> (exn + drv) \<times> 'w"
  drv_get :: "drv \<Rightarrow> string \<Rightarrow> 'w \<Rightarrow> (exn + unit) \<times> 'w"
  drv_refresh :: "drv \<Rightarrow> 'w \<Rightarrow> (exn + unit) \<times> 'w"
  drv_quit :: "drv \<Rightarrow> 'w \<Rightarrow> (exn + unit) \<times> 'w"
  drv_find_element :: "drv \<Rightarrow> string \<Rightarrow> 'w \<Rightarrow> (exn + elem) \<times> 'w"
  drv_find_elements :: "drv \<Rightarrow> locator \<Rightarrow> string \<Rightarrow> 'w \<Rightarrow> (exn + elem list) \<times> 'w"
  drv_execute_script :: "drv \<Rightarrow> string \<Rightarrow> 'w \<Rightarrow> (exn + unit) \<times> 'w"
  switch_to_frame :: "drv \<Rightarrow> elem \<Rightarrow> 'w \<Rightarrow> (exn + unit) \<times> 'w"
  switch_to_default_content :: "drv \<Rightarrow> 'w \<Rightarrow> (exn + unit) \<times> 'w"
  until_clickable :: "drv \<Rightarrow> string \<Rightarrow> 'w \<Rightarrow> (exn + elem) \<times> 'w"
  until_present :: "drv \<Rightarrow> string \<Rightarrow> 'w \<Rightarrow> (exn + elem) \<times> 'w"
  el_click :: "elem \<Rightarrow> 'w \<Rightarrow> (exn + unit) \<times> 'w"
  el_clear :: "elem \<Rightarrow> 'w \<Rightarrow> (exn + unit) \<times> 'w"
  el_send_keys :: "elem \<Rightarrow> string \<Rightarrow> 'w \<Rightarrow> (exn + unit) \<times> 'w"
  el_find_element :: "elem \<Rightarrow> string \<Rightarrow> 'w \<Rightarrow> (exn + elem) \<times> 'w"
  el_text :: "elem \<Rightarrow> 'w \<Rightarrow> (exn + string) \<times> 'w"
  sleep_interrupted :: "int \<Rightarrow> 'w \<Rightarrow> bool \<times> 'w"
  now_strftime :: "string \<Rightarrow> 'w \<Rightarrow> string"

text \<open>
  The object \<open>NHSShiftBooker\<close> with the fields of \<open>__init__\<close>. The records written by
  the module's logger and the world are carried in the same state.
\<close>

record 'w booker =
  email :: string
  password :: string
  headless :: bool
  driver :: "drv option"
  wait :: "drv option"
  booked_shifts :: "pydict list"
  logged :: "(level \<times> string) list"
  world :: 'w

type_synonym ('w, 'a) act = "'w booker \<Rightarrow> (exn + 'a) \<times> 'w booker"

definition init :: "string \<Rightarrow> string \<Rightarrow> bool \<Rightarrow> 'w \<Rightarrow> 'w booker" where
  "init em pw hl w =
     \<lparr>email = em, password = pw, headless = hl, driver = None, wait = None,
      booked_shifts = [], logged = [], world = w\<rparr>"

subsection \<open>Sequencing, raising and catching\<close>

definition ret :: "'a \<Rightarrow> ('w, 'a) act" where
  "ret x s = (Inr x, s)"

definition raise :: "exn \<Rightarrow> ('w, 'a) act" where
  "raise e s = (Inl e, s)"

definition bind :: "('w, 'a) act \<Rightarrow> ('a \<Rightarrow> ('w, 'b) act) \<Rightarrow> ('w, 'b) act" where
  "bind m f s = (case m s of (Inl e, s') \<Rightarrow> (Inl e, s') | (Inr x, s') \<Rightarrow> f x s')"

definition seq :: "('w, 'a) act \<Rightarrow> ('w, 'b) act \<Rightarrow> ('w, 'b) act" where
  "seq m k = bind m (\<lambda>_. k)"

text \<open>\<open>try: m  except: h\<close> catches every exception.\<close>

definition try_bare :: "('w, 'a) act \<Rightarrow> ('w, 'a) act \<Rightarrow> ('w, 'a) act" where
  "try_bare m h s = (case m s of (Inl e, s') \<Rightarrow> h s' | (Inr x, s') \<Rightarrow> (Inr x, s'))"

text \<open>\<open>try: m  except Exception as e: h e\<close> lets \<open>KeyboardInterrupt\<close> through.\<close>

definition try_exc :: "('w, 'a) act \<Rightarrow> (string \<Rightarrow> ('w, 'a) act) \<Rightarrow> ('w, 'a) act" where
  "try_exc m h s =
     (case m s of
        (Inl (Exception msg), s') \<Rightarrow> h msg s'
      | (Inl KeyboardInterrupt, s') \<Rightarrow> (Inl KeyboardInterrupt, s')
      | (Inr x, s') \<Rightarrow> (Inr x, s'))"

subsection \<open>Logging, sleeping, calling the driver\<close>

text \<open>
  The pictographs that open most log messages of the source are outside ASCII and are
  left out of the message texts.
\<close>

definition logI :: "level \<Rightarrow> string \<Rightarrow> 'w booker \<Rightarrow> 'w booker" where
  "logI l msg s = s\<lparr>logged := logged s @ [(l, msg)]\<rparr>"

definition log :: "level \<Rightarrow> string \<Rightarrow> ('w, unit) act" where
  "log l msg s = (Inr (), logI l msg s)"

fun show_nat :: "nat \<Rightarrow> string" where
  "show_nat n =
     (if n < 10 then [char_of (48 + n)]
      else show_nat (n div 10) @ [char_of (48 + n mod 10)])"

definition show_int :: "int \<Rightarrow> string" where
  "show_int i = (if i < 0 then CHR ''-'' # show_nat (nat (- i)) else show_nat (nat i))"

text \<open>An operation of the world, run on the world of the state.\<close>

definition lift :: "('w \<Rightarrow> (exn + 'a) \<times> 'w) \<Rightarrow> ('w, 'a) act" where
  "lift f s = (case f (world s) of (r, w') \<Rightarrow> (r, s\<lparr>world := w'\<rparr>))"

text \<open>
  \<open>self.driver.f(...)\<close> and \<open>self.wait.until(...)\<close>: on \<open>None\<close> the attribute access
  raises \<open>AttributeError\<close>, an \<open>Exception\<close>.
\<close>

definition with_driver :: "(drv \<Rightarrow> 'w \<Rightarrow> (exn + 'a) \<times> 'w) \<Rightarrow> ('w, 'a) act" where
  "with_driver f s =
     (case driver s of
        None \<Rightarrow> (Inl (Exception ''AttributeError''), s)
      | Some d \<Rightarrow> lift (f d) s)"

definition with_wait :: "(drv \<Rightarrow> 'w \<Rightarrow> (exn + 'a) \<times> 'w) \<Rightarrow> ('w, 'a) act" where
  "with_wait f s =
     (case wait s of
        None \<Rightarrow> (Inl (Exception ''AttributeError''), s)
      | Some d \<Rightarrow> lift (f d) s)"

text \<open>
  \<open>time.sleep(n)\<close>: a negative length raises \<open>ValueError\<close>; otherwise the call returns
  unless an interrupt arrives, which raises \<open>KeyboardInterrupt\<close>.
\<close>

definition sleep :: "'w env \<Rightarrow> int \<Rightarrow> ('w, unit) act" where
  "sleep env n s =
     (if n < 0 then (Inl (Exception ''ValueError''), s)
      else (case sleep_interrupted env n (world s) of
              (True, w') \<Rightarrow> (Inl KeyboardInterrupt, s\<lparr>world := w'\<rparr>)
            | (False, w') \<Rightarrow> (Inr (), s\<lparr>world := w'\<rparr>)))"

subsection \<open>\<open>setup_driver\<close> and \<open>close\<close>\<close>

definition setup_driver :: "config \<Rightarrow> 'w env \<Rightarrow> ('w, unit) act" where
  "setup_driver cfg env =
     try_exc
       (\<lambda>s. case lift (start_chrome env (headless s) (ELEMENT_WAIT_TIME cfg)) s of
               (Inl e, s') \<Rightarrow> (Inl e, s')
             | (Inr d, s') \<Rightarrow>
                 log INFO ''WebDriver initialized successfully''
                   (s'\<lparr>driver := Some d, wait := Some d\<rparr>))
       (\<lambda>e. seq (log ERROR (''Failed to initialize WebDriver: '' @ e)) (raise (Exception e)))"

definition close :: "'w env \<Rightarrow> ('w, unit) act" where
  "close env s =
     (case driver s of
        None \<Rightarrow> (Inr (), s)
      | Some d \<Rightarrow> seq (lift (drv_quit env d)) (log INFO ''WebDriver closed'') s)"

subsection \<open>\<open>login\<close>\<close>

text \<open>The steps of \<open>login\<close> before the email field: open the site, the login button, the frame.\<close>

definition login_open :: "'w env \<Rightarrow> ('w, unit) act" where
  "login_open env =
     seq (log INFO ''Starting login process...'')
       (seq (with_driver (\<lambda>d. drv_get env d ''https://www.nhsprofessionals.nhs.uk/''))
          (sleep env 3))"

definition login_button :: "'w env \<Rightarrow> ('w, unit) act" where
  "login_button env =
     try_bare
       (bind (with_wait (\<lambda>d. until_clickable env d
                ''//a[contains(text(), 'Log in')] | //button[contains(text(), 'Log in')]''))
          (\<lambda>b. seq (lift (el_click env b))
                 (seq (log INFO ''Clicked login button'') (sleep env 2))))
       (log WARNING ''Login button not found, might already be on login page'')"

definition login_iframe :: "'w env \<Rightarrow> ('w, unit) act" where
  "login_iframe env =
     try_exc
       (bind (with_driver (\<lambda>d. drv_find_elements env d TAG_NAME ''iframe''))
          (\<lambda>iframes. case iframes of
               [] \<Rightarrow> ret ()
             | f # _ \<Rightarrow>
                 seq (with_driver (\<lambda>d. switch_to_frame env d f))
                   (seq (log INFO ''Switched to login iframe'') (sleep env 1))))
       (\<lambda>e. log DEBUG (''No iframe found: '' @ e))"

definition login_pre :: "'w env \<Rightarrow> ('w, unit) act" where
  "login_pre env = seq (login_open env) (seq (login_button env) (login_iframe env))"

text \<open>The body of the \<open>try\<close> that enters the email.\<close>

definition login_email :: "'w env \<Rightarrow> ('w, unit) act" where
  "login_email env =
     bind (with_wait (\<lambda>d. until_present env d
             ''//input[@id='username'] | //input[@name='email'] | //input[@type='email']''))
       (\<lambda>f. seq (lift (el_clear env f))
              (bind (\<lambda>s. (Inr (email s), s))
                 (\<lambda>em. seq (lift (el_send_keys env f em))
                        (seq (log INFO ''Email entered'') (sleep env 1)))))"

definition login_password :: "'w env \<Rightarrow> ('w, unit) act" where
  "login_password env =
     try_exc
       (bind (with_wait (\<lambda>d. until_present env d
                ''//input[@id='password'] | //input[@name='password'] | //input[@type='password']''))
          (\<lambda>f. seq (lift (el_clear env f))
                 (bind (\<lambda>s. (Inr (password s), s))
                    (\<lambda>pw. seq (lift (el_send_keys env f pw))
                           (seq (log INFO ''Password entered'') (sleep env 1))))))
       (\<lambda>e. seq (log ERROR (''Failed to find password field: '' @ e)) (raise (Exception e)))"

definition login_submit :: "'w env \<Rightarrow> ('w, unit) act" where
  "login_submit env =
     try_exc
       (bind (with_wait (\<lambda>d. until_clickable env d
                ''//button[@id='kc-login'] | //button[contains(@type, 'submit')] | //input[@value='Log in']''))
          (\<lambda>b. seq (lift (el_click env b))
                 (seq (log INFO ''Login submitted'') (sleep env 5))))
       (\<lambda>e. seq (log ERROR (''Failed to find submit button: '' @ e)) (raise (Exception e)))"

definition login_finish :: "'w env \<Rightarrow> ('w, unit) act" where
  "login_finish env =
     seq (try_bare (with_driver (switch_to_default_content env)) (ret ()))
       (seq (sleep env 3) (log INFO ''Login successful''))"

definition login_post :: "'w env \<Rightarrow> ('w, unit) act" where
  "login_post env = seq (login_password env) (seq (login_submit env) (login_finish env))"

text \<open>
  \<open>login\<close> itself. The handler of the email step either returns the result of the
  retry or raises again; both happen inside the outer \<open>try\<close>, whose handler logs and
  raises again.
\<close>

function login :: "config \<Rightarrow> 'w env \<Rightarrow> int \<Rightarrow> ('w, unit) act" where
  "login cfg env retry_count s =
     (case
        (case login_pre env s of
           (Inl e, s1) \<Rightarrow> (Inl e, s1)
         | (Inr _, s1) \<Rightarrow>
             (case login_email env s1 of
                (Inl (Exception e), s2) \<Rightarrow>
                  (let s3 = logI ERROR (''Failed to find email field: '' @ e) s2 in
                   if retry_count < MAX_RETRY_ATTEMPTS cfg then
                     (case seq (log INFO (''Retrying login... Attempt '' @ show_int (retry_count + 1)))
                             (seq (sleep env (RETRY_DELAY_SECONDS cfg)) (with_driver (drv_refresh env))) s3 of
                        (Inl e', s4) \<Rightarrow> (Inl e', s4)
                      | (Inr _, s4) \<Rightarrow> login cfg env (retry_count + 1) s4)
                   else (Inl (Exception e), s3))
              | (Inl KeyboardInterrupt, s2) \<Rightarrow> (Inl KeyboardInterrupt, s2)
              | (Inr _, s2) \<Rightarrow> login_post env s2))
      of
        (Inl (Exception e), s') \<Rightarrow> (Inl (Exception e), logI ERROR (''Login failed: '' @ e) s')
      | (Inl KeyboardInterrupt, s') \<Rightarrow> (Inl KeyboardInterrupt, s')
      | (Inr u, s') \<Rightarrow> (Inr u, s'))"
  by pat_completeness auto
termination
  by (relation "measure (\<lambda>(cfg, env, r, s). nat (MAX_RETRY_ATTEMPTS cfg - r))") auto

declare login.simps [simp del]

subsection \<open>\<open>navigate_to_shifts\<close>\<close>

text \<open>
  The list literal of the source carries a stray closing bracket after its last item;
  the four string literals are taken as they stand.
\<close>

definition xpath_options :: "string list" where
  "xpath_options =
     [''//a[contains(text(), 'Find work')]'',
      ''//a[contains(text(), 'Shifts')]'',
      ''//a[contains(text(), 'Available shifts')]'',
      ''//nav//a[contains(text(), 'Work')'']"

text \<open>The \<open>for\<close> loop over the candidates; its result is the variable \<open>found\<close>.\<close>

fun click_first :: "'w env \<Rightarrow> string list \<Rightarrow> ('w, bool) act" where
  "click_first env [] s = (Inr False, s)"
| "click_first env (xpath # rest) s =
     (case bind (with_wait (\<lambda>d. until_clickable env d xpath)) (\<lambda>l. lift (el_click env l)) s of
        (Inr _, s') \<Rightarrow> (Inr True, logI INFO ''Found and clicked shifts link'' s')
      | (Inl e, s') \<Rightarrow> click_first env rest s')"

definition navigate_to_shifts :: "'w env \<Rightarrow> ('w, unit) act" where
  "navigate_to_shifts env =
     try_exc
       (seq (log INFO ''Navigating to available shifts...'')
          (bind (click_first env xpath_options)
             (\<lambda>found.
                seq (if \<not> found then
                       seq (log WARNING ''Could not find shifts link, trying direct URL'')
                         (with_driver
                            (\<lambda>d. drv_get env d ''https://www.nhsprofessionals.nhs.uk/search-shifts''))
                     else ret ())
                  (seq (sleep env 3) (log INFO ''Navigated to shifts section'')))))
       (\<lambda>e. seq (log ERROR (''Navigation to shifts failed: '' @ e)) (raise (Exception e)))"

subsection \<open>\<open>search_shifts\<close>\<close>

definition str_opt :: "string option \<Rightarrow> string" where
  "str_opt x = (case x of None \<Rightarrow> ''None'' | Some v \<Rightarrow> v)"

text \<open>Python's truth value of an optional string: \<open>None\<close> and the empty string are false.\<close>

definition truthy :: "string option \<Rightarrow> bool" where
  "truthy x = (case x of None \<Rightarrow> False | Some v \<Rightarrow> v \<noteq> [])"

definition fill_field :: "'w env \<Rightarrow> string \<Rightarrow> string \<Rightarrow> string \<Rightarrow> string \<Rightarrow> ('w, unit) act" where
  "fill_field env xpath v done_msg fail_msg =
     try_exc
       (bind (with_wait (\<lambda>d. until_present env d xpath))
          (\<lambda>f. seq (lift (el_clear env f))
                 (seq (lift (el_send_keys env f v))
                    (seq (sleep env 1) (log INFO (done_msg @ v))))))
       (\<lambda>e. log WARNING (fail_msg @ e))"

definition search_shifts :: "'w env \<Rightarrow> string option \<Rightarrow> string option \<Rightarrow> ('w, unit) act" where
  "search_shifts env location shift_type =
     try_exc
       (seq (log INFO (''Searching for shifts - Location: '' @ str_opt location @
                       '', Type: '' @ str_opt shift_type))
          (seq (if truthy location then
                  fill_field env
                    ''//input[contains(@placeholder, 'location')] | //input[contains(@placeholder, 'Location')] | //input[@name='location']''
                    (str_opt location) ''Entered location: '' ''Could not enter location: ''
                else ret ())
             (seq (if truthy shift_type then
                     fill_field env
                       ''//input[contains(@placeholder, 'type')] | //select[@name='shiftType']''
                       (str_opt shift_type) ''Entered shift type: '' ''Could not enter shift type: ''
                   else ret ())
                (seq (try_exc
                        (bind (with_wait (\<lambda>d. until_clickable env d
                                 ''//button[contains(text(), 'Search')] | //button[contains(text(), 'search')] | //button[@type='submit']''))
                           (\<lambda>b. seq (lift (el_click env b))
                                  (seq (log INFO ''Search submitted'') (sleep env 4))))
                        (\<lambda>e. log WARNING (''Could not find search button: '' @ e)))
                   (log INFO ''Shift search completed'')))))
       (\<lambda>e. log ERROR (''Shift search failed: '' @ e))"

subsection \<open>\<open>get_available_shifts\<close>\<close>

definition selectors :: "string list" where
  "selectors =
     [''//div[contains(@class, 'shift-item')] | //div[contains(@class, 'shift-card')]'',
      ''//tr[contains(@class, 'shift')]'',
      ''//li[contains(@class, 'shift')]'']"

text \<open>
  The loop over the selectors. The third argument is the variable \<open>shift_elements\<close>,
  which keeps its value when \<open>find_elements\<close> raises.
\<close>

fun select_elements :: "'w env \<Rightarrow> string list \<Rightarrow> elem list \<Rightarrow> ('w, elem list) act" where
  "select_elements env [] shift_elements s = (Inr shift_elements, s)"
| "select_elements env (selector # rest) shift_elements s =
     (case with_driver (\<lambda>d. drv_find_elements env d XPATH selector) s of
        (Inr found, s') \<Rightarrow>
          (if found \<noteq> [] then (Inr found, s') else select_elements env rest found s')
      | (Inl e, s') \<Rightarrow> select_elements env rest shift_elements s')"

text \<open>One of the five guarded lookups: the text of the first match, or the sentinel.\<close>

definition set_field :: "'w env \<Rightarrow> elem \<Rightarrow> string \<Rightarrow> string \<Rightarrow> pydict \<Rightarrow> ('w, pydict) act" where
  "set_field env shift key xpath shift_info =
     try_bare
       (bind (lift (el_find_element env shift xpath))
          (\<lambda>e. bind (lift (el_text env e))
                 (\<lambda>t. ret (shift_info(key \<mapsto> VStr t)))))
       (ret (shift_info(key \<mapsto> VStr ''Unknown'')))"

definition title_xpath :: string where
  "title_xpath = ''.//*[contains(@class, 'title')] | ./h3 | .//*[contains(@class, 'job-title')] ''"

definition location_xpath :: string where
  "location_xpath = ''.//*[contains(@class, 'location')] | .//*[contains(text(), 'worcester')] ''"

definition date_xpath :: string where
  "date_xpath = ''.//*[contains(@class, 'date')] | .//*[contains(@class, 'shift-date')] ''"

definition time_xpath :: string where
  "time_xpath = ''.//*[contains(@class, 'time')] | .//*[contains(@class, 'shift-time')] ''"

text \<open>The pound sign of the last selector is written as its two UTF-8 bytes.\<close>

definition pay_xpath :: string where
  "pay_xpath = ''.//*[contains(@class, 'pay')] | .//*[contains(text(), '' @
               [CHR 0x27, CHR 0xC2, CHR 0xA3, CHR 0x27] @ '')] ''"

definition str_val :: "pyval \<Rightarrow> string" where
  "str_val v = (case v of VStr t \<Rightarrow> t | VInt i \<Rightarrow> show_int i | VElem e \<Rightarrow> ''<WebElement>'')"

text \<open>\<open>d.get(key, 'Unknown')\<close>.\<close>

definition get_or_unknown :: "pydict \<Rightarrow> string \<Rightarrow> pyval" where
  "get_or_unknown d key = (case d key of None \<Rightarrow> VStr ''Unknown'' | Some v \<Rightarrow> v)"

text \<open>The body of the \<open>try\<close> inside the loop over the shift elements, up to the record.\<close>

definition parse_shift :: "'w env \<Rightarrow> int \<Rightarrow> elem \<Rightarrow> ('w, pydict) act" where
  "parse_shift env idx shift =
     bind (set_field env shift ''title'' title_xpath
             [''index'' \<mapsto> VInt idx, ''element'' \<mapsto> VElem shift])
       (\<lambda>i1. bind (set_field env shift ''location'' location_xpath i1)
          (\<lambda>i2. bind (set_field env shift ''date'' date_xpath i2)
             (\<lambda>i3. bind (set_field env shift ''time'' time_xpath i3)
                (\<lambda>i4. set_field env shift ''pay'' pay_xpath i4))))"

fun scan_shifts :: "'w env \<Rightarrow> int \<Rightarrow> elem list \<Rightarrow> pydict list \<Rightarrow> ('w, pydict list) act" where
  "scan_shifts env idx [] shifts s = (Inr shifts, s)"
| "scan_shifts env idx (shift # rest) shifts s =
     (case parse_shift env idx shift s of
        (Inr shift_info, s') \<Rightarrow>
          scan_shifts env (idx + 1) rest (shifts @ [shift_info])
            (logI DEBUG (''Shift '' @ show_int idx @ '': '' @
                         str_val (get_or_unknown shift_info ''title'') @ '' - '' @
                         str_val (get_or_unknown shift_info ''date'')) s')
      | (Inl (Exception e), s') \<Rightarrow>
          scan_shifts env (idx + 1) rest shifts
            (logI DEBUG (''Could not parse shift '' @ show_int idx @ '': '' @ e) s')
      | (Inl KeyboardInterrupt, s') \<Rightarrow> (Inl KeyboardInterrupt, s'))"

definition get_available_shifts :: "'w env \<Rightarrow> ('w, pydict list) act" where
  "get_available_shifts env =
     try_exc
       (bind (select_elements env selectors [])
          (\<lambda>shift_elements.
             seq (log INFO (''Found '' @ show_nat (length shift_elements) @ '' shift elements''))
               (bind (scan_shifts env 0 shift_elements [])
                  (\<lambda>shifts.
                     seq (log INFO (''Found '' @ show_nat (length shifts) @ '' available shifts''))
                       (ret shifts)))))
       (\<lambda>e. seq (log ERROR (''Failed to get available shifts: '' @ e)) (ret []))"

subsection \<open>\<open>book_shift\<close>\<close>

text \<open>The start of the attempt: the log line, the scroll script, one second of sleep.\<close>

definition book_start :: "'w env \<Rightarrow> pyval \<Rightarrow> pyval \<Rightarrow> ('w, unit) act" where
  "book_start env shift_title shift_date =
     seq (log INFO (''Attempting to book shift: '' @ str_val shift_title @ '' on '' @
                    str_val shift_date))
       (seq (with_driver (\<lambda>d. drv_execute_script env d ''arguments[0].scrollIntoView(true);''))
          (sleep env 1))"

text \<open>
  The body of the \<open>try\<close> that finds and clicks the button. \<open>shift_details['element']\<close>
  raises \<open>KeyError\<close> on a record without the key, and a value that is no element has
  no \<open>find_element\<close>.
\<close>

definition book_click :: "'w env \<Rightarrow> pydict \<Rightarrow> ('w, unit) act" where
  "book_click env shift_details =
     bind (case shift_details ''element'' of
             None \<Rightarrow> raise (Exception ''KeyError'')
           | Some (VElem el) \<Rightarrow>
               lift (el_find_element env el
                 ''.//button[contains(text(), 'Book')] | .//a[contains(text(), 'Apply')] | .//button[contains(text(), 'Apply')] | .//button[contains(@class, 'book')]'')
           | Some _ \<Rightarrow> raise (Exception ''AttributeError''))
       (\<lambda>b. seq (lift (el_click env b))
              (seq (log INFO ''Clicked book/apply button'') (sleep env 2)))"

definition book_confirm :: "'w env \<Rightarrow> ('w, unit) act" where
  "book_confirm env =
     try_bare
       (bind (with_wait (\<lambda>d. until_clickable env d
                ''//button[contains(text(), 'Confirm')] | //button[contains(text(), 'Yes')] | //button[@class='btn-primary']''))
          (\<lambda>b. seq (lift (el_click env b))
                 (seq (log INFO ''Confirmed booking'') (sleep env 2))))
       (log DEBUG ''No confirmation dialog found'')"

definition success_indicators :: "string list" where
  "success_indicators =
     [''//*[contains(text(), 'successfully')]'',
      ''//*[contains(text(), 'booked')]'',
      ''//*[contains(text(), 'confirmed')]'',
      ''//*[contains(text(), 'Application successful')]'']"

text \<open>\<open>self.booked_shifts.append({...})\<close>.\<close>

definition append_booking :: "'w env \<Rightarrow> pyval \<Rightarrow> pyval \<Rightarrow> ('w, unit) act" where
  "append_booking env shift_title shift_date s =
     (Inr (),
      s\<lparr>booked_shifts := booked_shifts s @
           [[''title'' \<mapsto> shift_title, ''date'' \<mapsto> shift_date,
             ''time'' \<mapsto> VStr (now_strftime env ''%Y-%m-%d %H:%M:%S'' (world s))]]\<rparr>)"

text \<open>
  The loop over the success indicators, and what follows it when no indicator is found:
  the booking is recorded all the same.
\<close>

fun check_success :: "'w env \<Rightarrow> pyval \<Rightarrow> pyval \<Rightarrow> string list \<Rightarrow> ('w, bool) act" where
  "check_success env shift_title shift_date [] s =
     seq (log INFO (''Shift booking processed for: '' @ str_val shift_title))
       (seq (append_booking env shift_title shift_date) (ret True)) s"
| "check_success env shift_title shift_date (indicator # rest) s =
     (case bind (with_driver (\<lambda>d. drv_find_element env d indicator))
             (\<lambda>success_msg.
                bind (lift (el_text env success_msg))
                  (\<lambda>t. seq (log INFO (''Shift booked successfully: '' @ t))
                         (seq (append_booking env shift_title shift_date) (ret True)))) s of
        (Inr b, s') \<Rightarrow> (Inr b, s')
      | (Inl e, s') \<Rightarrow> check_success env shift_title shift_date rest s')"

definition book_verify :: "'w env \<Rightarrow> pyval \<Rightarrow> pyval \<Rightarrow> ('w, bool) act" where
  "book_verify env shift_title shift_date =
     try_exc (check_success env shift_title shift_date success_indicators)
       (\<lambda>e. seq (log WARNING (''Could not verify booking status: '' @ e)) (ret False))"

text \<open>
  \<open>book_shift\<close>. Both handlers retry by calling the function again; the handler of the
  button step does so inside the outer \<open>try\<close>.
\<close>

function book_shift :: "config \<Rightarrow> 'w env \<Rightarrow> pydict \<Rightarrow> int \<Rightarrow> ('w, bool) act" where
  "book_shift cfg env shift_details retry_count s =
     (case
        (let shift_title = get_or_unknown shift_details ''title'';
             shift_date = get_or_unknown shift_details ''date'' in
         case book_start env shift_title shift_date s of
           (Inl e, s1) \<Rightarrow> (Inl e, s1)
         | (Inr _, s1) \<Rightarrow>
             (case book_click env shift_details s1 of
                (Inl (Exception e), s2) \<Rightarrow>
                  (let s3 = logI WARNING (''Could not find book button: '' @ e) s2 in
                   if retry_count < MAX_RETRY_ATTEMPTS cfg then
                     (case seq (log INFO ''Retrying...'') (sleep env (RETRY_DELAY_SECONDS cfg)) s3 of
                        (Inl e', s4) \<Rightarrow> (Inl e', s4)
                      | (Inr _, s4) \<Rightarrow> book_shift cfg env shift_details (retry_count + 1) s4)
                   else (Inr False, s3))
              | (Inl KeyboardInterrupt, s2) \<Rightarrow> (Inl KeyboardInterrupt, s2)
              | (Inr _, s2) \<Rightarrow>
                  seq (book_confirm env) (book_verify env shift_title shift_date) s2))
      of
        (Inl (Exception e), s') \<Rightarrow>
          (let s'' = logI ERROR (''Failed to book shift: '' @ e) s' in
           if retry_count < MAX_RETRY_ATTEMPTS cfg then
             (case seq (log INFO (''Retrying... Attempt '' @ show_int (retry_count + 1) @ ''/'' @
                                  show_int (MAX_RETRY_ATTEMPTS cfg)))
                     (sleep env (RETRY_DELAY_SECONDS cfg)) s'' of
                (Inl e', s3) \<Rightarrow> (Inl e', s3)
              | (Inr _, s3) \<Rightarrow> book_shift cfg env shift_details (retry_count + 1) s3)
           else (Inr False, s''))
      | (Inl KeyboardInterrupt, s') \<Rightarrow> (Inl KeyboardInterrupt, s')
      | (Inr b, s') \<Rightarrow> (Inr b, s'))"
  by pat_completeness auto
termination
  by (relation "measure (\<lambda>(cfg, env, sd, r, s). nat (MAX_RETRY_ATTEMPTS cfg - r))") auto

declare book_shift.simps [simp del]

subsection \<open>\<open>run_continuous_booking\<close>\<close>

definition rule60 :: string where
  "rule60 = replicate 60 CHR ''=''"

fun show_items :: "string list \<Rightarrow> string" where
  "show_items [] = []"
| "show_items [x] = CHR 0x27 # x @ [CHR 0x27]"
| "show_items (x # y # ys) = CHR 0x27 # x @ [CHR 0x27] @ '', '' @ show_items (y # ys)"

definition show_strs :: "string list \<Rightarrow> string" where
  "show_strs xs = ''['' @ show_items xs @ '']''"

definition banner :: "config \<Rightarrow> ('w, unit) act" where
  "banner cfg =
     seq (log INFO rule60)
       (seq (log INFO ''STARTING CONTINUOUS SHIFT BOOKING'')
          (seq (log INFO (''Location: '' @ PREFERRED_LOCATION cfg))
             (seq (log INFO (''Shift Type: '' @ show_strs (PREFERRED_SHIFT_TYPES cfg)))
                (seq (log INFO (''Time: '' @ SHIFT_TIME_START cfg @ '' - '' @ SHIFT_TIME_END cfg))
                   (seq (log INFO (''Search Interval: Every '' @
                                   show_int (SEARCH_INTERVAL_MINUTES cfg) @ '' minutes''))
                      (log INFO rule60))))))"

text \<open>The loop over a list of booking records that logs each; a subscript raises \<open>KeyError\<close>.\<close>

fun log_bookings :: "pydict list \<Rightarrow> ('w, unit) act" where
  "log_bookings [] s = (Inr (), s)"
| "log_bookings (booking # rest) s =
     (case (booking ''title'', booking ''date'') of
        (Some t, Some d) \<Rightarrow>
          log_bookings rest (logI INFO (''   '' @ str_val t @ '' on '' @ str_val d) s)
      | _ \<Rightarrow> (Inl (Exception ''KeyError''), s))"

text \<open>The loop over the shifts of one cycle: every shift is handed to \<open>book_shift\<close>.\<close>

fun book_all :: "config \<Rightarrow> 'w env \<Rightarrow> pydict list \<Rightarrow> ('w, unit) act" where
  "book_all cfg env [] s = (Inr (), s)"
| "book_all cfg env (shift # rest) s =
     bind
       (seq (log INFO (CHR 0x0A # ''-> Processing: '' @ str_val (get_or_unknown shift ''title'')))
          (seq (log INFO (''  Date: '' @ str_val (get_or_unknown shift ''date'')))
             (seq (log INFO (''  Time: '' @ str_val (get_or_unknown shift ''time'')))
                (seq (log INFO (''  Location: '' @ str_val (get_or_unknown shift ''location'')))
                   (book_shift cfg env shift 0)))))
       (\<lambda>ok. seq (if ok then log INFO ''Successfully booked!''
                   else log WARNING ''Booking failed, will retry next cycle'')
                (seq (sleep env 2) (book_all cfg env rest))) s"

definition booking_statistics :: "('w, unit) act" where
  "booking_statistics =
     seq (log INFO (CHR 0x0A # ''BOOKING STATISTICS:''))
       (seq (\<lambda>s. log INFO (''   Total shifts booked: '' @ show_nat (length (booked_shifts s))) s)
          (\<lambda>s. log_bookings (booked_shifts s) s))"

text \<open>The body of the \<open>try\<close> inside the loop.\<close>

definition cycle_body :: "config \<Rightarrow> 'w env \<Rightarrow> ('w, unit) act" where
  "cycle_body cfg env =
     seq (navigate_to_shifts env)
       (seq (search_shifts env (Some (PREFERRED_LOCATION cfg))
               (case PREFERRED_SHIFT_TYPES cfg of [] \<Rightarrow> None | t # _ \<Rightarrow> Some t))
          (bind (get_available_shifts env)
             (\<lambda>shifts.
                seq (if shifts = [] then
                       log INFO ''No available shifts found. Waiting for next search...''
                     else
                       seq (\<lambda>s. log INFO (''Booked '' @ show_nat (length (booked_shifts s)) @
                                           '' shifts so far'') s)
                         (book_all cfg env shifts))
                  booking_statistics)))"

text \<open>The \<open>try\<close> inside the loop with its handler.\<close>

definition cycle :: "config \<Rightarrow> 'w env \<Rightarrow> ('w, unit) act" where
  "cycle cfg env =
     try_exc (cycle_body cfg env)
       (\<lambda>e. seq (log ERROR (''Error during search cycle: '' @ e))
              (log INFO ''Continuing to next cycle...''))"

text \<open>The three log lines that open a pass of the loop.\<close>

definition cycle_header :: "'w env \<Rightarrow> int \<Rightarrow> ('w, unit) act" where
  "cycle_header env search_cycle =
     seq (log INFO (CHR 0x0A # rule60))
       (seq (\<lambda>s. log INFO (''SEARCH CYCLE #'' @ show_int search_cycle @ '' - '' @
                           now_strftime env ''%Y-%m-%d %H:%M:%S'' (world s)) s)
          (log INFO rule60))"

text \<open>The two log lines before the wait for the next search.\<close>

definition wait_notice :: "config \<Rightarrow> 'w env \<Rightarrow> ('w, unit) act" where
  "wait_notice cfg env =
     seq (log INFO (CHR 0x0A # ''Waiting '' @ show_int (SEARCH_INTERVAL_MINUTES cfg) @
                    '' minutes before next search...''))
       (\<lambda>s. log INFO (''Next search at: '' @ now_strftime env ''%H:%M:%S'' (world s)) s)"

text \<open>One pass of the loop body: the header, the cycle, the wait for the next search.\<close>

definition iteration :: "config \<Rightarrow> 'w env \<Rightarrow> int \<Rightarrow> ('w, unit) act" where
  "iteration cfg env search_cycle =
     seq (cycle_header env search_cycle)
       (seq (cycle cfg env)
          (seq (wait_notice cfg env) (sleep env (SEARCH_INTERVAL_MINUTES cfg * 60))))"

text \<open>
  \<open>while True\<close>. The loop may run for ever, so the model counts the passes it may still
  make: \<open>None\<close> says that the count ran out, \<open>Some\<close> gives the exception that left the
  loop and the state it left.
\<close>

fun main_loop :: "nat \<Rightarrow> config \<Rightarrow> 'w env \<Rightarrow> int \<Rightarrow> 'w booker \<Rightarrow> ((exn + unit) \<times> 'w booker) option" where
  "main_loop 0 cfg env search_cycle s = None"
| "main_loop (Suc n) cfg env search_cycle s =
     (case iteration cfg env (search_cycle + 1) s of
        (Inl e, s') \<Rightarrow> Some (Inl e, s')
      | (Inr _, s') \<Rightarrow> main_loop n cfg env (search_cycle + 1) s')"

text \<open>\<open>finally: f\<close> after an outcome: an exception of \<open>f\<close> replaces the outcome.\<close>

definition finally_do :: "('w, unit) act \<Rightarrow> (exn + 'a) \<times> 'w booker \<Rightarrow> (exn + 'a) \<times> 'w booker" where
  "finally_do f r = (case f (snd r) of (Inl e, s') \<Rightarrow> (Inl e, s') | (Inr _, s') \<Rightarrow> (fst r, s'))"

text \<open>The handler of \<open>KeyboardInterrupt\<close>.\<close>

definition stop_handler :: "('w, unit) act" where
  "stop_handler =
     seq (log INFO ([CHR 0x0A, CHR 0x0A] @ ''Stopping shift booker (Ctrl+C pressed)''))
       (seq (\<lambda>s. log INFO (''Final Statistics: '' @ show_nat (length (booked_shifts s)) @
                           '' shifts booked'') s)
          (\<lambda>s. log_bookings (booked_shifts s) s))"

text \<open>
  The body of the outer \<open>try\<close> of \<open>run_continuous_booking\<close>: the driver, the login,
  the banner and the loop.
\<close>

definition session :: "nat \<Rightarrow> config \<Rightarrow> 'w env \<Rightarrow> 'w booker \<Rightarrow> ((exn + unit) \<times> 'w booker) option" where
  "session n cfg env s =
     (case seq (setup_driver cfg env) (seq (login cfg env 0) (banner cfg)) s of
        (Inl e, s1) \<Rightarrow> Some (Inl e, s1)
      | (Inr _, s1) \<Rightarrow> main_loop n cfg env 0 s1)"

text \<open>The two log lines and the ten seconds of the handler of \<open>Exception\<close>.\<close>

definition restart_delay :: "'w env \<Rightarrow> string \<Rightarrow> ('w, unit) act" where
  "restart_delay env e =
     seq (log ERROR (''Fatal error: '' @ e))
       (seq (log ERROR ''Attempting to restart...'') (sleep env 10))"

text \<open>
  \<open>run_continuous_booking\<close>. The first argument bounds the passes of the loop and the
  depth of the restarts; \<open>None\<close> says the bound ran out before the function came back.
\<close>

fun run_continuous_booking :: "nat \<Rightarrow> config \<Rightarrow> 'w env \<Rightarrow> 'w booker \<Rightarrow> ((exn + unit) \<times> 'w booker) option" where
  "run_continuous_booking 0 cfg env s = None"
| "run_continuous_booking (Suc n) cfg env s =
     (case session n cfg env s of
        None \<Rightarrow> None
      | Some (Inl KeyboardInterrupt, s2) \<Rightarrow> Some (finally_do (close env) (stop_handler s2))
      | Some (Inl (Exception e), s2) \<Rightarrow>
          (case restart_delay env e s2 of
             (Inl e', s3) \<Rightarrow> Some (finally_do (close env) (Inl e', s3))
           | (Inr _, s3) \<Rightarrow>
               (case run_continuous_booking n cfg env s3 of
                  None \<Rightarrow> None
                | Some r \<Rightarrow> Some (finally_do (close env) r)))
      | Some (Inr u, s2) \<Rightarrow> Some (finally_do (close env) (Inr u, s2)))"

definition main :: "nat \<Rightarrow> config \<Rightarrow> 'w env \<Rightarrow> 'w \<Rightarrow> ((exn + unit) \<times> 'w booker) option" where
  "main n cfg env w =
     run_continuous_booking n cfg env
       (logI INFO (''Configuration loaded for: '' @ NHS_EMAIL cfg)
          (logI INFO ''Starting NHS Professionals Shift Booker...''
             (init (NHS_EMAIL cfg) (NHS_PASSWORD cfg) (HEADLESS_MODE cfg) w)))"

subsection \<open>Concrete worlds for the examples\<close>

text \<open>
  A browser in which most lookups succeed: the first link candidate is not clickable, the
  second selector matches two shift elements, an element has no pay entry, every text is
  the same string, and an interrupt arrives in any sleep of a minute or more.
\<close>

definition env_ok :: "unit env" where
  "env_ok =
     \<lparr>start_chrome = (\<lambda>h t w. (Inr 1, w)),
      drv_get = (\<lambda>d u w. (Inr (), w)),
      drv_refresh = (\<lambda>d w. (Inr (), w)),
      drv_quit = (\<lambda>d w. (Inr (), w)),
      drv_find_element = (\<lambda>d x w. (Inr 30, w)),
      drv_find_elements =
        (\<lambda>d l x w. (Inr (if l = XPATH \<and> x = selectors ! 1 then [10, 11] else []), w)),
      drv_execute_script = (\<lambda>d x w. (Inr (), w)),
      switch_to_frame = (\<lambda>d e w. (Inr (), w)),
      switch_to_default_content = (\<lambda>d w. (Inr (), w)),
      until_clickable =
        (\<lambda>d x w. (if x = hd xpath_options then Inl (Exception ''timeout'') else Inr 7, w)),
      until_present = (\<lambda>d x w. (Inr 8, w)),
      el_click = (\<lambda>e w. (Inr (), w)),
      el_clear = (\<lambda>e w. (Inr (), w)),
      el_send_keys = (\<lambda>e k w. (Inr (), w)),
      el_find_element =
        (\<lambda>e x w. (if x = pay_xpath then Inl (Exception ''no such element'') else Inr 20, w)),
      el_text = (\<lambda>e w. (Inr ''HCA'', w)),
      sleep_interrupted = (\<lambda>n w. (60 \<le> n, w)),
      now_strftime = (\<lambda>f w. ''now'')\<rparr>"

text \<open>A machine on which nothing works: every call of the library raises, no interrupt arrives.\<close>

definition env_down :: "unit env" where
  "env_down =
     \<lparr>start_chrome = (\<lambda>h t w. (Inl (Exception ''down''), w)),
      drv_get = (\<lambda>d u w. (Inl (Exception ''down''), w)),
      drv_refresh = (\<lambda>d w. (Inl (Exception ''down''), w)),
      drv_quit = (\<lambda>d w. (Inl (Exception ''down''), w)),
      drv_find_element = (\<lambda>d x w. (Inl (Exception ''down''), w)),
      drv_find_elements = (\<lambda>d l x w. (Inl (Exception ''down''), w)),
      drv_execute_script = (\<lambda>d x w. (Inl (Exception ''down''), w)),
      switch_to_frame = (\<lambda>d e w. (Inl (Exception ''down''), w)),
      switch_to_default_content = (\<lambda>d w. (Inl (Exception ''down''), w)),
      until_clickable = (\<lambda>d x w. (Inl (Exception ''down''), w)),
      until_present = (\<lambda>d x w. (Inl (Exception ''down''), w)),
      el_click = (\<lambda>e w. (Inl (Exception ''down''), w)),
      el_clear = (\<lambda>e w. (Inl (Exception ''down''), w)),
      el_send_keys = (\<lambda>e k w. (Inl (Exception ''down''), w)),
      el_find_element = (\<lambda>e x w. (Inl (Exception ''down''), w)),
      el_text = (\<lambda>e w. (Inl (Exception ''down''), w)),
      sleep_interrupted = (\<lambda>n w. (False, w)),
      now_strftime = (\<lambda>f w. ''now'')\<rparr>"

definition cfg0 :: config where
  "cfg0 =
     \<lparr>NHS_EMAIL = ''a@b'', NHS_PASSWORD = ''pw'', PREFERRED_LOCATION = ''Worcester'',
      PREFERRED_SHIFT_TYPES = [''HCA''], SHIFT_TIME_START = ''19:00'', SHIFT_TIME_END = ''08:00'',
      MAX_SHIFTS_TO_BOOK = 1, SEARCH_INTERVAL_MINUTES = 1, HEADLESS_MODE = False,
      MAX_RETRY_ATTEMPTS = 2, RETRY_DELAY_SECONDS = 5, ELEMENT_WAIT_TIME = 10\<rparr>"

text \<open>A booker whose driver is set up, as \<open>setup_driver\<close> leaves it.\<close>

definition st0 :: "unit booker" where
  "st0 = (init ''a@b'' ''pw'' False ())\<lparr>driver := Some 1, wait := Some 1\<rparr>"

subsection \<open>Notions used to state and prove the properties\<close>

text \<open>
  \<open>try: m  except Exception as e: h e\<close> followed by \<open>k\<close> when \<open>m\<close> did not raise, and
  the same for a bare \<open>except:\<close>. The recursive functions above are written with
  explicit case distinctions; the lemmas of the next section restate them with these.
\<close>

definition catch_exc :: "('w, 'a) act \<Rightarrow> (string \<Rightarrow> ('w, 'b) act) \<Rightarrow> ('a \<Rightarrow> ('w, 'b) act) \<Rightarrow> ('w, 'b) act" where
  "catch_exc m h k s =
     (case m s of
        (Inl (Exception e), s') \<Rightarrow> h e s'
      | (Inl KeyboardInterrupt, s') \<Rightarrow> (Inl KeyboardInterrupt, s')
      | (Inr x, s') \<Rightarrow> k x s')"

definition catch_bare :: "('w, 'a) act \<Rightarrow> ('w, 'b) act \<Rightarrow> ('a \<Rightarrow> ('w, 'b) act) \<Rightarrow> ('w, 'b) act" where
  "catch_bare m h k s = (case m s of (Inl e, s') \<Rightarrow> h s' | (Inr x, s') \<Rightarrow> k x s')"

text \<open>An action leaves an observation of the state as it was.\<close>

definition keeps :: "('w booker \<Rightarrow> 'b) \<Rightarrow> ('w, 'a) act \<Rightarrow> bool" where
  "keeps f m = (\<forall>s. f (snd (m s)) = f s)"

definition world_free :: "('w booker \<Rightarrow> 'b) \<Rightarrow> bool" where
  "world_free f = (\<forall>s w. f (s\<lparr>world := w\<rparr>) = f s)"

text \<open>An action never ends with an exception of the given kind.\<close>

definition avoids :: "(exn \<Rightarrow> bool) \<Rightarrow> ('w, 'a) act \<Rightarrow> bool" where
  "avoids E m = (\<forall>s. case fst (m s) of Inl e \<Rightarrow> \<not> E e | Inr x \<Rightarrow> True)"

text \<open>
  Between two states an outcome has appended one booking record with the given title
  and date when it is the value \<open>True\<close>, and has left the list of booked shifts as it
  was otherwise.
\<close>

definition appended :: "pyval \<Rightarrow> pyval \<Rightarrow> 'w booker \<Rightarrow> exn + bool \<Rightarrow> 'w booker \<Rightarrow> bool" where
  "appended t d s res s' =
     (if res = Inr True then
        \<exists>b. booked_shifts s' = booked_shifts s @ [b] \<and> b ''title'' = Some t \<and> b ''date'' = Some d
      else booked_shifts s' = booked_shifts s)"

definition books :: "pyval \<Rightarrow> pyval \<Rightarrow> ('w, bool) act \<Rightarrow> bool" where
  "books t d m = (\<forall>s. appended t d s (fst (m s)) (snd (m s)))"

text \<open>
  What one of the five guarded lookups of \<open>get_available_shifts\<close> stores: the text of the
  first match of the selector inside the shift element, or the sentinel when the lookup
  or the reading of the text raises.
\<close>

definition field_text :: "'w env \<Rightarrow> elem \<Rightarrow> string \<Rightarrow> 'w booker \<Rightarrow> string" where
  "field_text env shift xpath s =
     (case fst (bind (lift (el_find_element env shift xpath)) (\<lambda>e. lift (el_text env e)) s) of
        Inl e \<Rightarrow> ''Unknown''
      | Inr t \<Rightarrow> t)"

text \<open>The record that the concrete browser gives for a shift element.\<close>

definition rec_ok :: "int \<Rightarrow> elem \<Rightarrow> pydict" where
  "rec_ok i e =
     [''index'' \<mapsto> VInt i, ''element'' \<mapsto> VElem e, ''title'' \<mapsto> VStr ''HCA'',
      ''location'' \<mapsto> VStr ''HCA'', ''date'' \<mapsto> VStr ''HCA'', ''time'' \<mapsto> VStr ''HCA'',
      ''pay'' \<mapsto> VStr ''Unknown'']"

text \<open>An action only adds to the end of the list of booked shifts.\<close>

definition extends :: "('w, 'a) act \<Rightarrow> bool" where
  "extends m = (\<forall>s. prefix (booked_shifts s) (booked_shifts (snd (m s))))"

text \<open>
  Every call of \<open>login\<close> starts with the log line \<open>Starting login process...\<close> and every
  call of \<open>book_shift\<close> with a line \<open>Attempting to book shift: ...\<close>; no other line of
  the two functions has this form. The number of such lines counts the attempts.
\<close>

definition is_login_start :: "level \<times> string \<Rightarrow> bool" where
  "is_login_start e = (e = (INFO, ''Starting login process...''))"

definition is_book_attempt :: "level \<times> string \<Rightarrow> bool" where
  "is_book_attempt e = (fst e = INFO \<and> prefix ''Attempting to book shift: '' (snd e))"

definition login_attempts :: "'w booker \<Rightarrow> nat" where
  "login_attempts s = length (filter is_login_start (logged s))"

definition book_attempts :: "'w booker \<Rightarrow> nat" where
  "book_attempts s = length (filter is_book_attempt (logged s))"

text \<open>An action raises an observation of the state by at most a given number.\<close>

definition adds :: "('w booker \<Rightarrow> nat) \<Rightarrow> nat \<Rightarrow> ('w, 'a) act \<Rightarrow> bool" where
  "adds f n m = (\<forall>s. f (snd (m s)) \<le> f s + n)"

text \<open>The same browser without an email field, without a book button, and with a failing script.\<close>

definition env_no_email :: "unit env" where
  "env_no_email = env_ok\<lparr>until_present := (\<lambda>d x w. (Inl (Exception ''timeout''), w))\<rparr>"

definition env_no_button :: "unit env" where
  "env_no_button = env_ok\<lparr>el_find_element := (\<lambda>e x w. (Inl (Exception ''no such element''), w))\<rparr>"

definition env_no_script :: "unit env" where
  "env_no_script = env_ok\<lparr>drv_execute_script := (\<lambda>d x w. (Inl (Exception ''javascript error''), w))\<rparr>"

text \<open>
  The state in which a guarded lookup leaves the booker: the state reached by the lookup
  and the reading of the text, whether they raised or not.
\<close>

definition field_state :: "'w env \<Rightarrow> elem \<Rightarrow> string \<Rightarrow> 'w booker \<Rightarrow> 'w booker" where
  "field_state env shift xpath s =
     snd (bind (lift (el_find_element env shift xpath)) (\<lambda>e. lift (el_text env e)) s)"

text \<open>
  What the claim asks of the record of one shift element, scraped from a given state: the
  five lookups are made in the order of the source, each from the state the one before it
  left, and each field is the text that this lookup found or the sentinel when it raised.
\<close>

definition expected_record :: "'w env \<Rightarrow> int \<Rightarrow> elem \<Rightarrow> 'w booker \<Rightarrow> pydict" where
  "expected_record env idx shift s0 =
     (let s1 = field_state env shift title_xpath s0;
          s2 = field_state env shift location_xpath s1;
          s3 = field_state env shift date_xpath s2;
          s4 = field_state env shift time_xpath s3
      in [''index'' \<mapsto> VInt idx, ''element'' \<mapsto> VElem shift,
          ''title'' \<mapsto> VStr (field_text env shift title_xpath s0),
          ''location'' \<mapsto> VStr (field_text env shift location_xpath s1),
          ''date'' \<mapsto> VStr (field_text env shift date_xpath s2),
          ''time'' \<mapsto> VStr (field_text env shift time_xpath s3),
          ''pay'' \<mapsto> VStr (field_text env shift pay_xpath s4)])"

text \<open>The state after the five lookups of one shift element.\<close>

definition after_fields :: "'w env \<Rightarrow> elem \<Rightarrow> 'w booker \<Rightarrow> 'w booker" where
  "after_fields env shift s0 =
     field_state env shift pay_xpath
       (field_state env shift time_xpath
          (field_state env shift date_xpath
             (field_state env shift location_xpath
                (field_state env shift title_xpath s0))))"

text \<open>
  The records the claim asks for a list of shift elements: one per element, in order, each
  scraped from the state in which the scan reaches the element.
\<close>

fun expected_records :: "'w env \<Rightarrow> int \<Rightarrow> elem list \<Rightarrow> 'w booker \<Rightarrow> pydict list" where
  "expected_records env idx [] s = []"
| "expected_records env idx (shift # rest) s =
     expected_record env idx shift s #
     expected_records env (idx + 1) rest
       (logI DEBUG (''Shift '' @ show_int idx @ '': '' @
                    str_val (get_or_unknown (expected_record env idx shift s) ''title'') @ '' - '' @
                    str_val (get_or_unknown (expected_record env idx shift s) ''date''))
          (after_fields env shift s))"

text \<open>The body of the \<open>try\<close> in the loop of \<open>navigate_to_shifts\<close>: wait for the link, click it.\<close>

definition click_attempt :: "'w env \<Rightarrow> string \<Rightarrow> ('w, unit) act" where
  "click_attempt env xpath =
     bind (with_wait (\<lambda>d. until_clickable env d xpath)) (\<lambda>l. lift (el_click env l))"

text \<open>The call of \<open>find_elements\<close> in the loop over the selectors.\<close>

definition find_attempt :: "'w env \<Rightarrow> string \<Rightarrow> ('w, elem list) act" where
  "find_attempt env selector = with_driver (\<lambda>d. drv_find_elements env d XPATH selector)"

text \<open>
  The loop over the shift elements with the body of its \<open>try\<close> left open: \<open>p idx shift\<close>
  builds the record. With \<open>parse_shift\<close> for \<open>p\<close> this is \<open>scan_shifts\<close>.
\<close>

fun scan_with :: "(int \<Rightarrow> elem \<Rightarrow> ('w, pydict) act) \<Rightarrow> int \<Rightarrow> elem list \<Rightarrow> pydict list \<Rightarrow>
    ('w, pydict list) act" where
  "scan_with p idx [] shifts s = (Inr shifts, s)"
| "scan_with p idx (shift # rest) shifts s =
     (case p idx shift s of
        (Inr shift_info, s') \<Rightarrow>
          scan_with p (idx + 1) rest (shifts @ [shift_info])
            (logI DEBUG (''Shift '' @ show_int idx @ '': '' @
                         str_val (get_or_unknown shift_info ''title'') @ '' - '' @
                         str_val (get_or_unknown shift_info ''date'')) s')
      | (Inl (Exception e), s') \<Rightarrow>
          scan_with p (idx + 1) rest shifts
            (logI DEBUG (''Could not parse shift '' @ show_int idx @ '': '' @ e) s')
      | (Inl KeyboardInterrupt, s') \<Rightarrow> (Inl KeyboardInterrupt, s'))"

text \<open>The outer \<open>try\<close> of \<open>get_available_shifts\<close> with its body left open.\<close>

definition guard_scan :: "('w, pydict list) act \<Rightarrow> ('w, pydict list) act" where
  "guard_scan m =
     try_exc m (\<lambda>e. seq (log ERROR (''Failed to get available shifts: '' @ e)) (ret []))"

text \<open>The concrete browser in which an element is found but its text cannot be read.\<close>

definition env_no_text :: "unit env" where
  "env_no_text = env_ok\<lparr>el_text := (\<lambda>e w. (Inl (Exception ''stale''), w))\<rparr>"

text \<open>A record builder that fails on element 10 and scrapes every other element.\<close>

definition stale_first :: "int \<Rightarrow> elem \<Rightarrow> (unit, pydict) act" where
  "stale_first idx shift =
     (if shift = 10 then raise (Exception ''stale'') else parse_shift env_ok idx shift)"

text \<open>
  The concrete browser in which only the third link candidate is clickable and only the
  third selector matches.
\<close>

definition env_third :: "unit env" where
  "env_third =
     env_ok\<lparr>until_clickable :=
              (\<lambda>d x w. if x = xpath_options ! 2 then (Inr 40, w)
                         else (Inl (Exception ''timeout''), w)),
            drv_find_elements :=
              (\<lambda>d l x w. (Inr (if l = XPATH \<and> x = selectors ! 2 then [10, 11] else []), w))\<rparr>"



text \<open>The concrete browser with no interrupt at all, and with an interrupt in every sleep.\<close>

definition env_quiet :: "unit env" where
  "env_quiet = env_ok\<lparr>sleep_interrupted := (\<lambda>n w. (False, w))\<rparr>"

definition env_int :: "unit env" where
  "env_int = env_ok\<lparr>sleep_interrupted := (\<lambda>n w. (True, w))\<rparr>"

text \<open>A configuration with a negative search interval.\<close>

definition cfg_neg :: config where
  "cfg_neg = cfg0\<lparr>SEARCH_INTERVAL_MINUTES := - 1\<rparr>"

text \<open>The state after the four log lines that announce a shift in the booking loop.\<close>

definition processing :: "pydict \<Rightarrow> 'w booker \<Rightarrow> 'w booker" where
  "processing shift s =
     logI INFO (''  Location: '' @ str_val (get_or_unknown shift ''location''))
       (logI INFO (''  Time: '' @ str_val (get_or_unknown shift ''time''))
          (logI INFO (''  Date: '' @ str_val (get_or_unknown shift ''date''))
             (logI INFO (CHR 0x0A # ''-> Processing: '' @ str_val (get_or_unknown shift ''title'')) s)))"

section \<open>The recursive functions, restated with the combinators\<close>

lemma try_exc_catch: "try_exc m h = catch_exc m h ret"
  by (rule ext) (simp add: try_exc_def catch_exc_def ret_def split: prod.splits sum.splits exn.splits)

lemma try_bare_catch: "try_bare m h = catch_bare m h ret"
  by (rule ext) (simp add: try_bare_def catch_bare_def ret_def split: prod.splits sum.splits)

lemma login_unfold:
  "login cfg env r =
     try_exc
       (seq (login_pre env)
          (catch_exc (login_email env)
             (\<lambda>e. seq (log ERROR (''Failed to find email field: '' @ e))
                    (if r < MAX_RETRY_ATTEMPTS cfg then
                       seq (seq (log INFO (''Retrying login... Attempt '' @ show_int (r + 1)))
                              (seq (sleep env (RETRY_DELAY_SECONDS cfg)) (with_driver (drv_refresh env))))
                         (login cfg env (r + 1))
                     else raise (Exception e)))
             (\<lambda>_. login_post env)))
       (\<lambda>e. seq (log ERROR (''Login failed: '' @ e)) (raise (Exception e)))"
  apply (rule ext)
  apply (subst login.simps)
  apply (simp add: try_exc_def catch_exc_def seq_def bind_def log_def raise_def Let_def
      split: prod.splits sum.splits exn.splits)
  done

lemma book_shift_unfold:
  "book_shift cfg env sd r =
     try_exc
       (seq (book_start env (get_or_unknown sd ''title'') (get_or_unknown sd ''date''))
          (catch_exc (book_click env sd)
             (\<lambda>e. seq (log WARNING (''Could not find book button: '' @ e))
                    (if r < MAX_RETRY_ATTEMPTS cfg then
                       seq (seq (log INFO ''Retrying...'') (sleep env (RETRY_DELAY_SECONDS cfg)))
                         (book_shift cfg env sd (r + 1))
                     else ret False))
             (\<lambda>_. seq (book_confirm env)
                (book_verify env (get_or_unknown sd ''title'') (get_or_unknown sd ''date'')))))
       (\<lambda>e. seq (log ERROR (''Failed to book shift: '' @ e))
              (if r < MAX_RETRY_ATTEMPTS cfg then
                 seq (seq (log INFO (''Retrying... Attempt '' @ show_int (r + 1) @ ''/'' @
                                     show_int (MAX_RETRY_ATTEMPTS cfg)))
                        (sleep env (RETRY_DELAY_SECONDS cfg)))
                   (book_shift cfg env sd (r + 1))
               else ret False))"
  apply (rule ext)
  apply (subst book_shift.simps)
  apply (simp add: try_exc_def catch_exc_def seq_def bind_def log_def ret_def Let_def
      split: prod.splits sum.splits exn.splits)
  done

lemma click_first_unfold:
  "click_first env (x # rest) =
     catch_bare (bind (with_wait (\<lambda>d. until_clickable env d x)) (\<lambda>l. lift (el_click env l)))
       (click_first env rest)
       (\<lambda>_. seq (log INFO ''Found and clicked shifts link'') (ret True))"
  by (rule ext) (simp add: catch_bare_def seq_def bind_def log_def ret_def
      split: prod.splits sum.splits)

lemma select_elements_unfold:
  "select_elements env (x # rest) cur =
     catch_bare (with_driver (\<lambda>d. drv_find_elements env d XPATH x))
       (select_elements env rest cur)
       (\<lambda>found. if found \<noteq> [] then ret found else select_elements env rest found)"
  by (rule ext) (simp add: catch_bare_def ret_def split: prod.splits sum.splits)

lemma scan_shifts_unfold:
  "scan_shifts env idx (shift # rest) shifts =
     catch_exc (parse_shift env idx shift)
       (\<lambda>e. seq (log DEBUG (''Could not parse shift '' @ show_int idx @ '': '' @ e))
              (scan_shifts env (idx + 1) rest shifts))
       (\<lambda>shift_info.
          seq (log DEBUG (''Shift '' @ show_int idx @ '': '' @
                          str_val (get_or_unknown shift_info ''title'') @ '' - '' @
                          str_val (get_or_unknown shift_info ''date'')))
            (scan_shifts env (idx + 1) rest (shifts @ [shift_info])))"
  by (rule ext) (simp add: catch_exc_def seq_def bind_def log_def
      split: prod.splits sum.splits exn.splits)

lemma check_success_unfold:
  "check_success env t d (indicator # rest) =
     catch_bare
       (bind (with_driver (\<lambda>dr. drv_find_element env dr indicator))
          (\<lambda>success_msg.
             bind (lift (el_text env success_msg))
               (\<lambda>tx. seq (log INFO (''Shift booked successfully: '' @ tx))
                       (seq (append_booking env t d) (ret True)))))
       (check_success env t d rest)
       ret"
  by (rule ext) (simp add: catch_bare_def ret_def split: prod.splits sum.splits)

lemma check_success_Nil:
  "check_success env t d [] =
     seq (log INFO (''Shift booking processed for: '' @ str_val t))
       (seq (append_booking env t d) (ret True))"
  by (rule ext) simp

lemma log_bookings_unfold:
  "log_bookings (b # rest) =
     (case (b ''title'', b ''date'') of
        (Some t, Some d) \<Rightarrow>
          seq (log INFO (''   '' @ str_val t @ '' on '' @ str_val d)) (log_bookings rest)
      | _ \<Rightarrow> raise (Exception ''KeyError''))"
  by (rule ext) (simp add: seq_def bind_def log_def raise_def split: option.splits)

lemma book_all_unfold:
  "book_all cfg env (shift # rest) =
     bind
       (seq (log INFO (CHR 0x0A # ''-> Processing: '' @ str_val (get_or_unknown shift ''title'')))
          (seq (log INFO (''  Date: '' @ str_val (get_or_unknown shift ''date'')))
             (seq (log INFO (''  Time: '' @ str_val (get_or_unknown shift ''time'')))
                (seq (log INFO (''  Location: '' @ str_val (get_or_unknown shift ''location'')))
                   (book_shift cfg env shift 0)))))
       (\<lambda>ok. seq (if ok then log INFO ''Successfully booked!''
                   else log WARNING ''Booking failed, will retry next cycle'')
                (seq (sleep env 2) (book_all cfg env rest)))"
  by (rule ext) simp

lemma setup_driver_unfold:
  "setup_driver cfg env =
     try_exc
       (bind (\<lambda>s. lift (start_chrome env (headless s) (ELEMENT_WAIT_TIME cfg)) s)
          (\<lambda>d. seq (\<lambda>s. (Inr (), s\<lparr>driver := Some d, wait := Some d\<rparr>))
                 (log INFO ''WebDriver initialized successfully'')))
       (\<lambda>e. seq (log ERROR (''Failed to initialize WebDriver: '' @ e)) (raise (Exception e)))"
  unfolding setup_driver_def
  by (rule arg_cong[where f="\<lambda>m. try_exc m _"], rule ext)
     (simp add: bind_def seq_def split: prod.splits sum.splits)

lemma close_unfold:
  "close env =
     bind (\<lambda>s. (Inr (driver s), s))
       (\<lambda>d. case d of None \<Rightarrow> ret ()
             | Some dr \<Rightarrow> seq (lift (drv_quit env dr)) (log INFO ''WebDriver closed''))"
  by (rule ext) (simp add: close_def bind_def ret_def split: option.splits)

lemma main_loop_unfold:
  "main_loop (Suc n) cfg env c s =
     (case iteration cfg env (c + 1) s of
        (Inl e, s') \<Rightarrow> Some (Inl e, s')
      | (Inr u, s') \<Rightarrow> main_loop n cfg env (c + 1) s')"
  by simp

lemmas act_defs = ret_def raise_def bind_def seq_def try_bare_def try_exc_def log_def logI_def
  lift_def with_driver_def with_wait_def sleep_def

section \<open>Rules for the notions\<close>

named_theorems keeps_intros

lemma keepsD: "keeps f m \<Longrightarrow> m s = (r, s') \<Longrightarrow> f s' = f s"
  by (metis keeps_def snd_conv)

lemma keeps_ret [keeps_intros]: "keeps f (ret x)"
  by (simp add: keeps_def ret_def)

lemma keeps_raise [keeps_intros]: "keeps f (raise e)"
  by (simp add: keeps_def raise_def)

lemma keeps_catch_exc [keeps_intros]:
  "keeps f m \<Longrightarrow> (\<And>e. keeps f (h e)) \<Longrightarrow> (\<And>x. keeps f (k x)) \<Longrightarrow> keeps f (catch_exc m h k)"
  by (auto simp: keeps_def catch_exc_def split: prod.splits sum.splits exn.splits)
     (metis snd_conv)+

lemma keeps_catch_bare [keeps_intros]:
  "keeps f m \<Longrightarrow> keeps f h \<Longrightarrow> (\<And>x. keeps f (k x)) \<Longrightarrow> keeps f (catch_bare m h k)"
  by (auto simp: keeps_def catch_bare_def split: prod.splits sum.splits)
     (metis snd_conv)+

lemma keeps_bind [keeps_intros]:
  "keeps f m \<Longrightarrow> (\<And>x. keeps f (k x)) \<Longrightarrow> keeps f (bind m k)"
  by (auto simp: keeps_def bind_def split: prod.splits sum.splits)
     (metis snd_conv)+

lemma keeps_seq [keeps_intros]: "keeps f m \<Longrightarrow> keeps f k \<Longrightarrow> keeps f (seq m k)"
  by (simp add: seq_def keeps_bind)

lemma keeps_try_bare [keeps_intros]: "keeps f m \<Longrightarrow> keeps f h \<Longrightarrow> keeps f (try_bare m h)"
  by (simp add: try_bare_catch keeps_catch_bare keeps_ret)

lemma keeps_try_exc [keeps_intros]:
  "keeps f m \<Longrightarrow> (\<And>e. keeps f (h e)) \<Longrightarrow> keeps f (try_exc m h)"
  by (simp add: try_exc_catch keeps_catch_exc keeps_ret)

lemma keeps_if [keeps_intros]:
  "(c \<Longrightarrow> keeps f a) \<Longrightarrow> (\<not> c \<Longrightarrow> keeps f b) \<Longrightarrow> keeps f (if c then a else b)"
  by simp

lemma keeps_case_list [keeps_intros]:
  "keeps f a \<Longrightarrow> (\<And>x xs. keeps f (b x xs)) \<Longrightarrow>
   keeps f (case l of [] \<Rightarrow> a | x # xs \<Rightarrow> b x xs)"
  by (cases l) auto

lemma keeps_case_option [keeps_intros]:
  "keeps f a \<Longrightarrow> (\<And>x. keeps f (b x)) \<Longrightarrow> keeps f (case v of None \<Rightarrow> a | Some x \<Rightarrow> b x)"
  by (cases v) auto

lemma keeps_lift [keeps_intros]: "world_free f \<Longrightarrow> keeps f (lift g)"
  by (auto simp: keeps_def lift_def world_free_def split: prod.splits)

lemma keeps_with_driver [keeps_intros]: "world_free f \<Longrightarrow> keeps f (with_driver g)"
  using keeps_lift[of f] by (auto simp: keeps_def with_driver_def split: option.splits)

lemma keeps_with_wait [keeps_intros]: "world_free f \<Longrightarrow> keeps f (with_wait g)"
  using keeps_lift[of f] by (auto simp: keeps_def with_wait_def split: option.splits)

lemma keeps_sleep [keeps_intros]: "world_free f \<Longrightarrow> keeps f (sleep env n)"
  by (auto simp: keeps_def sleep_def world_free_def split: prod.splits bool.splits)

lemma keeps_log [keeps_intros]: "(\<And>s. f (logI l msg s) = f s) \<Longrightarrow> keeps f (log l msg)"
  by (simp add: keeps_def log_def)

lemma keeps_log_state [keeps_intros]:
  "(\<And>s msg. f (logI l msg s) = f s) \<Longrightarrow> keeps f (\<lambda>s. log l (g s) s)"
  by (simp add: keeps_def log_def)

lemma keeps_state_read [keeps_intros]: "keeps f (\<lambda>s. (Inr (g s), s))"
  by (simp add: keeps_def)

section \<open>The list of booked shifts\<close>

lemma booked_logI [simp]: "booked_shifts (logI l msg s) = booked_shifts s"
  by (simp add: logI_def)

lemma world_free_booked [simp]: "world_free booked_shifts"
  by (simp add: world_free_def)

lemma keeps_booked_login_pre: "keeps booked_shifts (login_pre env)"
  unfolding login_pre_def login_open_def login_button_def login_iframe_def
  by (intro keeps_intros; simp)

lemma keeps_booked_login_email: "keeps booked_shifts (login_email env)"
  unfolding login_email_def by (intro keeps_intros; simp)

lemma keeps_booked_login_post: "keeps booked_shifts (login_post env)"
  unfolding login_post_def login_password_def login_submit_def login_finish_def
  by (intro keeps_intros; simp)

lemma keeps_booked_login: "keeps booked_shifts (login cfg env r)"
proof (induction "nat (MAX_RETRY_ATTEMPTS cfg - r)" arbitrary: r rule: less_induct)
  case less
  have rec: "keeps booked_shifts (login cfg env (r + 1))" if "r < MAX_RETRY_ATTEMPTS cfg"
    using that by (intro less) simp
  show ?case
    by (subst login_unfold)
      (intro keeps_try_exc keeps_seq keeps_catch_exc keeps_if keeps_booked_login_pre
        keeps_booked_login_email keeps_booked_login_post keeps_log keeps_raise keeps_sleep
        keeps_with_driver rec; simp)
qed

lemma keeps_booked_setup_driver: "keeps booked_shifts (setup_driver cfg env)"
proof -
  have "keeps booked_shifts (\<lambda>s. (Inr (), s\<lparr>driver := Some d, wait := Some d\<rparr>))" for d
    by (simp add: keeps_def)
  moreover have "keeps booked_shifts (\<lambda>s. lift (start_chrome env (headless s) (ELEMENT_WAIT_TIME cfg)) s)"
    by (simp add: keeps_def lift_def split: prod.splits)
  ultimately show ?thesis
    unfolding setup_driver_unfold by (intro keeps_intros; simp)
qed

lemma keeps_booked_close: "keeps booked_shifts (close env)"
  unfolding close_unfold by (intro keeps_intros; simp)

lemma keeps_booked_click_first: "keeps booked_shifts (click_first env xs)"
proof (induction xs)
  case Nil
  show ?case by (simp add: keeps_def)
next
  case (Cons x xs)
  show ?case
    unfolding click_first_unfold by (intro keeps_intros Cons; simp)
qed

lemma keeps_booked_navigate: "keeps booked_shifts (navigate_to_shifts env)"
  unfolding navigate_to_shifts_def
  by (intro keeps_intros keeps_booked_click_first; simp)

lemma keeps_booked_search: "keeps booked_shifts (search_shifts env loc ty)"
  unfolding search_shifts_def fill_field_def
  by (intro keeps_intros; simp)

lemma keeps_booked_select: "keeps booked_shifts (select_elements env xs cur)"
proof (induction xs arbitrary: cur)
  case Nil
  show ?case by (simp add: keeps_def)
next
  case (Cons x xs)
  show ?case
    unfolding select_elements_unfold by (intro keeps_intros Cons; simp)
qed

lemma keeps_booked_parse: "keeps booked_shifts (parse_shift env idx shift)"
  unfolding parse_shift_def set_field_def by (intro keeps_intros; simp)

lemma keeps_booked_scan: "keeps booked_shifts (scan_shifts env idx els shifts)"
proof (induction els arbitrary: idx shifts)
  case Nil
  show ?case by (simp add: keeps_def)
next
  case (Cons x xs)
  show ?case
    unfolding scan_shifts_unfold by (intro keeps_intros Cons keeps_booked_parse; simp)
qed

lemma keeps_booked_get_available: "keeps booked_shifts (get_available_shifts env)"
  unfolding get_available_shifts_def
  by (intro keeps_intros keeps_booked_select keeps_booked_scan; simp)

lemma keeps_state_dep: "(\<And>x. keeps f (m x)) \<Longrightarrow> keeps f (\<lambda>s. m (g s) s)"
  by (simp add: keeps_def)

lemma keeps_booked_log_bookings: "keeps booked_shifts (log_bookings bs)"
proof (induction bs)
  case Nil
  show ?case by (simp add: keeps_def)
next
  case (Cons b bs)
  show ?case
    unfolding log_bookings_unfold
    by (auto split: option.splits intro!: keeps_intros Cons)
qed

lemma keeps_booked_log_all: "keeps booked_shifts (\<lambda>s. log_bookings (booked_shifts s) s)"
  using keeps_state_dep[of booked_shifts log_bookings booked_shifts] keeps_booked_log_bookings
  by blast

lemma keeps_booked_statistics: "keeps booked_shifts booking_statistics"
  unfolding booking_statistics_def
  by (intro keeps_seq keeps_log keeps_log_state keeps_booked_log_all; simp)

lemma keeps_booked_stop_handler: "keeps booked_shifts stop_handler"
  unfolding stop_handler_def
  by (intro keeps_seq keeps_log keeps_log_state keeps_booked_log_all; simp)

lemma keeps_booked_banner: "keeps booked_shifts (banner cfg)"
  unfolding banner_def by (intro keeps_intros; simp)

lemma keeps_booked_cycle_header: "keeps booked_shifts (cycle_header env c)"
  unfolding cycle_header_def by (intro keeps_seq keeps_log keeps_log_state; simp)

lemma keeps_booked_wait_notice: "keeps booked_shifts (wait_notice cfg env)"
  unfolding wait_notice_def by (intro keeps_seq keeps_log keeps_log_state; simp)

lemma keeps_booked_restart_delay: "keeps booked_shifts (restart_delay env e)"
  unfolding restart_delay_def by (intro keeps_intros; simp)

subsection \<open>What \<open>book_shift\<close> appends\<close>

lemma booksD: "books t d m \<Longrightarrow> m s = (res, s') \<Longrightarrow> appended t d s res s'"
  by (metis books_def fst_conv snd_conv)

lemma appended_from:
  "booked_shifts s1 = booked_shifts s \<Longrightarrow> appended t d s1 res s' \<Longrightarrow> appended t d s res s'"
  by (auto simp: appended_def split: if_splits)

lemma appended_same:
  "booked_shifts s' = booked_shifts s \<Longrightarrow> res \<noteq> Inr True \<Longrightarrow> appended t d s res s'"
  by (simp add: appended_def)

lemma books_keeps: "keeps booked_shifts m \<Longrightarrow> (\<And>s. fst (m s) \<noteq> Inr True) \<Longrightarrow> books t d m"
  by (simp add: books_def keeps_def appended_def)

lemma books_ret_False: "books t d (ret False)"
  by (rule books_keeps) (simp_all add: keeps_ret ret_def)

lemma books_raise: "books t d (raise e)"
  by (rule books_keeps) (simp_all add: keeps_raise raise_def)

lemma books_append: "books t d (seq (append_booking env t d) (ret True))"
  by (simp add: books_def appended_def seq_def bind_def append_booking_def ret_def)

lemma books_catch_exc:
  assumes "keeps booked_shifts m" "\<And>e. books t d (h e)" "\<And>x. books t d (k x)"
  shows "books t d (catch_exc m h k)"
  unfolding books_def
proof
  fix s
  obtain r s1 where m: "m s = (r, s1)" by (cases "m s")
  have b: "booked_shifts s1 = booked_shifts s" using keepsD[OF assms(1) m] .
  show "appended t d s (fst (catch_exc m h k s)) (snd (catch_exc m h k s))"
  proof (cases r)
    case (Inl e)
    show ?thesis
    proof (cases e)
      case (Exception msg)
      have "appended t d s1 (fst (h msg s1)) (snd (h msg s1))"
        using assms(2)[of msg] by (simp add: books_def)
      then have "appended t d s (fst (h msg s1)) (snd (h msg s1))"
        by (rule appended_from[OF b])
      then show ?thesis
        using m Inl Exception by (simp add: catch_exc_def)
    next
      case KeyboardInterrupt
      have "appended t d s (Inl KeyboardInterrupt) s1"
        by (rule appended_same[OF b]) simp
      then show ?thesis using m Inl KeyboardInterrupt by (simp add: catch_exc_def)
    qed
  next
    case (Inr x)
    have "appended t d s1 (fst (k x s1)) (snd (k x s1))"
      using assms(3)[of x] by (simp add: books_def)
    then have "appended t d s (fst (k x s1)) (snd (k x s1))"
      by (rule appended_from[OF b])
    then show ?thesis using m Inr by (simp add: catch_exc_def)
  qed
qed

lemma books_bind:
  "keeps booked_shifts m \<Longrightarrow> (\<And>x. books t d (k x)) \<Longrightarrow> books t d (bind m k)"
proof -
  assume a: "keeps booked_shifts m" "\<And>x. books t d (k x)"
  have "bind m k = catch_exc m (\<lambda>e. raise (Exception e)) k"
    by (rule ext) (simp add: bind_def catch_exc_def raise_def split: prod.splits sum.splits exn.splits)
  then show ?thesis using books_catch_exc[OF a(1) books_raise a(2)] by simp
qed

lemma books_seq: "keeps booked_shifts m \<Longrightarrow> books t d k \<Longrightarrow> books t d (seq m k)"
  by (simp add: seq_def books_bind)

lemma books_if: "(c \<Longrightarrow> books t d a) \<Longrightarrow> (\<not> c \<Longrightarrow> books t d b) \<Longrightarrow> books t d (if c then a else b)"
  by simp

text \<open>A failed attempt has changed nothing, so the handler starts from the same list.\<close>

lemma books_or_else:
  assumes "books t d m" "\<And>e. books t d (h e)"
  shows "books t d (\<lambda>s. case m s of (Inl e, s') \<Rightarrow> h e s' | (Inr x, s') \<Rightarrow> (Inr x, s'))"
  unfolding books_def
proof
  fix s
  let ?c = "\<lambda>s. case m s of (Inl e, s') \<Rightarrow> h e s' | (Inr x, s') \<Rightarrow> (Inr x, s')"
  obtain r s1 where m: "m s = (r, s1)" by (cases "m s")
  have bm: "appended t d s r s1" using booksD[OF assms(1) m] .
  show "appended t d s (fst (?c s)) (snd (?c s))"
  proof (cases r)
    case (Inl e)
    have "appended t d s1 (fst (h e s1)) (snd (h e s1))"
      using assms(2)[of e] by (simp add: books_def)
    moreover have "booked_shifts s1 = booked_shifts s"
      using bm Inl by (simp add: appended_def)
    ultimately have "appended t d s (fst (h e s1)) (snd (h e s1))"
      using appended_from by blast
    then show ?thesis using m Inl by simp
  next
    case (Inr x)
    then show ?thesis using m bm by simp
  qed
qed

lemma books_try_bare: "books t d m \<Longrightarrow> books t d h \<Longrightarrow> books t d (catch_bare m h ret)"
proof -
  assume a: "books t d m" "books t d h"
  have "catch_bare m h ret = (\<lambda>s. case m s of (Inl e, s') \<Rightarrow> h s' | (Inr x, s') \<Rightarrow> (Inr x, s'))"
    by (rule ext) (simp add: catch_bare_def ret_def split: prod.splits sum.splits)
  then show ?thesis using books_or_else[OF a(1), of "\<lambda>_. h"] a(2) by simp
qed

lemma books_try_exc: "books t d m \<Longrightarrow> (\<And>e. books t d (h e)) \<Longrightarrow> books t d (try_exc m h)"
proof -
  assume a: "books t d m" "\<And>e. books t d (h e)"
  have "try_exc m h =
      (\<lambda>s. case m s of
              (Inl e, s') \<Rightarrow> (case e of Exception msg \<Rightarrow> h msg | KeyboardInterrupt \<Rightarrow> raise KeyboardInterrupt) s'
            | (Inr x, s') \<Rightarrow> (Inr x, s'))"
    by (rule ext) (simp add: try_exc_def raise_def split: prod.splits sum.splits exn.splits)
  moreover have "books t d (case e of Exception msg \<Rightarrow> h msg | KeyboardInterrupt \<Rightarrow> raise KeyboardInterrupt)" for e
    by (cases e) (simp_all add: a(2) books_raise)
  ultimately show ?thesis using books_or_else[OF a(1)] by simp
qed

lemma books_check_success: "books t d (check_success env t d inds)"
proof (induction inds)
  case Nil
  show ?case
    unfolding check_success_Nil by (intro books_seq books_append keeps_log) simp
next
  case (Cons i inds)
  show ?case
    unfolding check_success_unfold
    by (intro books_try_bare books_bind books_seq books_append Cons keeps_intros; simp)
qed

lemma books_verify: "books t d (book_verify env t d)"
  unfolding book_verify_def
  by (intro books_try_exc books_check_success books_seq books_ret_False keeps_log) simp

lemma keeps_booked_book_start: "keeps booked_shifts (book_start env t d)"
  unfolding book_start_def by (intro keeps_intros; simp)

lemma keeps_booked_book_click: "keeps booked_shifts (book_click env sd)"
  unfolding book_click_def
  by (auto split: option.splits pyval.splits intro!: keeps_intros)

lemma keeps_booked_book_confirm: "keeps booked_shifts (book_confirm env)"
  unfolding book_confirm_def by (intro keeps_intros; simp)

lemma books_book_shift:
  "books (get_or_unknown sd ''title'') (get_or_unknown sd ''date'') (book_shift cfg env sd r)"
proof (induction "nat (MAX_RETRY_ATTEMPTS cfg - r)" arbitrary: r rule: less_induct)
  case less
  have rec: "books (get_or_unknown sd ''title'') (get_or_unknown sd ''date'')
               (book_shift cfg env sd (r + 1))" if "r < MAX_RETRY_ATTEMPTS cfg"
    using that by (intro less) simp
  show ?case
    by (subst book_shift_unfold)
      (intro books_try_exc books_seq books_catch_exc books_if books_ret_False books_verify rec
        keeps_booked_book_start keeps_booked_book_click keeps_booked_book_confirm
        keeps_seq keeps_log keeps_sleep; simp)
qed


subsection \<open>The loop only adds to the list\<close>

lemma extendsD: "extends m \<Longrightarrow> m s = (r, s') \<Longrightarrow> prefix (booked_shifts s) (booked_shifts s')"
  by (metis extends_def snd_conv)

lemma keeps_snd: "keeps f m \<Longrightarrow> f (snd (m s)) = f s"
  by (simp add: keeps_def)

lemma extends_keeps: "keeps booked_shifts m \<Longrightarrow> extends m"
  by (simp add: extends_def keeps_def)

lemma extends_books: "books t d m \<Longrightarrow> extends m"
  unfolding extends_def books_def appended_def
  by (metis prefixI prefix_order.order_refl)

lemma extends_bind: "extends m \<Longrightarrow> (\<And>x. extends (k x)) \<Longrightarrow> extends (bind m k)"
  unfolding extends_def
proof
  fix s
  assume a: "\<forall>s. prefix (booked_shifts s) (booked_shifts (snd (m s)))"
    and b: "\<And>x. \<forall>s. prefix (booked_shifts s) (booked_shifts (snd (k x s)))"
  obtain r s1 where m: "m s = (r, s1)" by (cases "m s")
  have p1: "prefix (booked_shifts s) (booked_shifts s1)" using a m by (metis snd_conv)
  show "prefix (booked_shifts s) (booked_shifts (snd (bind m k s)))"
  proof (cases r)
    case (Inl e)
    then show ?thesis using m p1 by (simp add: bind_def)
  next
    case (Inr x)
    have "prefix (booked_shifts s1) (booked_shifts (snd (k x s1)))" using b by blast
    then show ?thesis using m Inr p1 by (simp add: bind_def)
  qed
qed

lemma extends_seq: "extends m \<Longrightarrow> extends k \<Longrightarrow> extends (seq m k)"
  by (simp add: seq_def extends_bind)

lemma extends_try_exc: "extends m \<Longrightarrow> (\<And>e. extends (h e)) \<Longrightarrow> extends (try_exc m h)"
  unfolding extends_def
proof
  fix s
  assume a: "\<forall>s. prefix (booked_shifts s) (booked_shifts (snd (m s)))"
    and b: "\<And>e. \<forall>s. prefix (booked_shifts s) (booked_shifts (snd (h e s)))"
  obtain r s1 where m: "m s = (r, s1)" by (cases "m s")
  have p1: "prefix (booked_shifts s) (booked_shifts s1)" using a m by (metis snd_conv)
  show "prefix (booked_shifts s) (booked_shifts (snd (try_exc m h s)))"
  proof (cases r)
    case (Inl e)
    show ?thesis
    proof (cases e)
      case (Exception msg)
      have "prefix (booked_shifts s1) (booked_shifts (snd (h msg s1)))" using b by blast
      then show ?thesis
        using m Inl Exception p1 by (simp add: try_exc_def)
    next
      case KeyboardInterrupt
      then show ?thesis using m Inl p1 by (simp add: try_exc_def)
    qed
  next
    case (Inr x)
    then show ?thesis using m p1 by (simp add: try_exc_def)
  qed
qed

lemma extends_if: "(c \<Longrightarrow> extends a) \<Longrightarrow> (\<not> c \<Longrightarrow> extends b) \<Longrightarrow> extends (if c then a else b)"
  by simp

lemma extends_book_all: "extends (book_all cfg env shifts)"
proof (induction shifts)
  case Nil
  show ?case by (simp add: extends_def)
next
  case (Cons sh rest)
  show ?case
    unfolding book_all_unfold
    by (intro extends_bind extends_seq extends_if Cons extends_books[OF books_book_shift]
          extends_keeps keeps_log keeps_sleep; simp)
qed

lemma extends_cycle_body: "extends (cycle_body cfg env)"
  unfolding cycle_body_def
  by (intro extends_bind extends_seq extends_if extends_book_all
        extends_keeps[OF keeps_booked_navigate] extends_keeps[OF keeps_booked_search]
        extends_keeps[OF keeps_booked_get_available] extends_keeps[OF keeps_booked_statistics]
        extends_keeps[OF keeps_log] extends_keeps[OF keeps_log_state]; simp)

lemma extends_cycle: "extends (cycle cfg env)"
  unfolding cycle_def
  by (intro extends_try_exc extends_cycle_body extends_seq extends_keeps[OF keeps_log]; simp)

lemma extends_iteration: "extends (iteration cfg env c)"
  unfolding iteration_def
  by (intro extends_seq extends_cycle extends_keeps[OF keeps_booked_cycle_header]
        extends_keeps[OF keeps_booked_wait_notice] extends_keeps[OF keeps_sleep]; simp)

lemma main_loop_prefix:
  "main_loop n cfg env c s = Some (r, s') \<Longrightarrow> prefix (booked_shifts s) (booked_shifts s')"
proof (induction n arbitrary: c s)
  case 0
  then show ?case by simp
next
  case (Suc n)
  obtain r1 s1 where it: "iteration cfg env (c + 1) s = (r1, s1)"
    by (cases "iteration cfg env (c + 1) s")
  have p1: "prefix (booked_shifts s) (booked_shifts s1)"
    using extendsD[OF extends_iteration it] .
  show ?case
  proof (cases r1)
    case (Inl e)
    then show ?thesis using Suc.prems it p1 by simp
  next
    case (Inr u)
    then have "main_loop n cfg env (c + 1) s1 = Some (r, s')" using Suc.prems it by simp
    then have "prefix (booked_shifts s1) (booked_shifts s')" by (rule Suc.IH)
    then show ?thesis using p1 by (metis prefix_order.order_trans)
  qed
qed

lemma session_prefix:
  "session n cfg env s = Some (r, s') \<Longrightarrow> prefix (booked_shifts s) (booked_shifts s')"
proof -
  assume a: "session n cfg env s = Some (r, s')"
  let ?m = "seq (setup_driver cfg env) (seq (login cfg env 0) (banner cfg))"
  have k: "keeps booked_shifts ?m"
    by (intro keeps_seq keeps_booked_setup_driver keeps_booked_login keeps_booked_banner)
  obtain r1 s1 where m: "?m s = (r1, s1)" by (cases "?m s")
  have b1: "booked_shifts s1 = booked_shifts s" using keepsD[OF k m] .
  show ?thesis
  proof (cases r1)
    case (Inl e)
    then show ?thesis using a m b1 by (simp add: session_def)
  next
    case (Inr u)
    then have "main_loop n cfg env 0 s1 = Some (r, s')" using a m by (simp add: session_def)
    then show ?thesis using main_loop_prefix b1 by metis
  qed
qed

lemma finally_close_booked:
  "booked_shifts (snd (finally_do (close env) (r, s))) = booked_shifts s"
  using keeps_booked_close[of env]
  by (auto simp: finally_do_def keeps_def split: prod.splits sum.splits) (metis snd_conv)+

lemma run_continuous_booking_prefix:
  "run_continuous_booking n cfg env s = Some (r, s') \<Longrightarrow>
   prefix (booked_shifts s) (booked_shifts s')"
proof (induction n arbitrary: s r s')
  case 0
  then show ?case by simp
next
  case (Suc n)
  show ?case
  proof (cases "session n cfg env s")
    case None
    then show ?thesis using Suc.prems by simp
  next
    case (Some rs)
    obtain r2 s2 where rs: "rs = (r2, s2)" by (cases rs)
    have p2: "prefix (booked_shifts s) (booked_shifts s2)"
      using session_prefix Some rs by metis
    show ?thesis
    proof (cases r2)
      case (Inr u)
      then have "(r, s') = finally_do (close env) (Inr u, s2)"
        using Suc.prems Some rs by simp
      then have "booked_shifts s' = booked_shifts s2"
        using finally_close_booked[of env "Inr u" s2] by (metis snd_conv)
      then show ?thesis using p2 by simp
    next
      case (Inl e)
      show ?thesis
      proof (cases e)
        case KeyboardInterrupt
        obtain r3 s3 where st: "stop_handler s2 = (r3, s3)" by (cases "stop_handler s2")
        have b3: "booked_shifts s3 = booked_shifts s2"
          using keepsD[OF keeps_booked_stop_handler st] .
        have "(r, s') = finally_do (close env) (r3, s3)"
          using Suc.prems Some rs Inl KeyboardInterrupt st by simp
        then have "booked_shifts s' = booked_shifts s3"
          using finally_close_booked[of env r3 s3] by (metis snd_conv)
        then show ?thesis using p2 b3 by simp
      next
        case (Exception msg)
        obtain r3 s3 where rd: "restart_delay env msg s2 = (r3, s3)"
          by (cases "restart_delay env msg s2")
        have b3: "booked_shifts s3 = booked_shifts s2"
          using keepsD[OF keeps_booked_restart_delay rd] .
        show ?thesis
        proof (cases r3)
          case (Inl e')
          then have "(r, s') = finally_do (close env) (Inl e', s3)"
            using Suc.prems Some rs \<open>r2 = Inl e\<close> Exception rd by simp
          then have "booked_shifts s' = booked_shifts s3"
            using finally_close_booked[of env "Inl e'" s3] by (metis snd_conv)
          then show ?thesis using p2 b3 by simp
        next
          case (Inr u)
          then obtain r4 s4 where rec: "run_continuous_booking n cfg env s3 = Some (r4, s4)"
            and fin: "(r, s') = finally_do (close env) (r4, s4)"
            using Suc.prems Some rs \<open>r2 = Inl e\<close> Exception rd
            by (auto split: option.splits)
          have "prefix (booked_shifts s3) (booked_shifts s4)" using Suc.IH[OF rec] .
          moreover have "booked_shifts s' = booked_shifts s4"
            using fin finally_close_booked[of env r4 s4] by (metis snd_conv)
          ultimately show ?thesis using p2 b3 by (metis prefix_order.order_trans)
        qed
      qed
    qed
  qed
qed

text \<open>
  C2. The list \<open>booked_shifts\<close> starts empty; the driver set-up, the login, the
  navigation, the search, the scraping and \<open>close\<close> leave it as it was; \<open>book_shift\<close>
  appends one record, with the title and the date of the shift, exactly when it returns
  \<open>True\<close>, and leaves the list as it was otherwise; and whenever
  \<open>run_continuous_booking\<close> comes back, the list it started with is a prefix of the list
  it leaves, so no record was removed or changed.
\<close>

theorem booked_shifts_append_only:
  "booked_shifts (init em pw hl w) = [] \<and>
   booked_shifts (snd (setup_driver cfg env s)) = booked_shifts s \<and>
   booked_shifts (snd (login cfg env r s)) = booked_shifts s \<and>
   booked_shifts (snd (navigate_to_shifts env s)) = booked_shifts s \<and>
   booked_shifts (snd (search_shifts env loc ty s)) = booked_shifts s \<and>
   booked_shifts (snd (get_available_shifts env s)) = booked_shifts s \<and>
   booked_shifts (snd (close env s)) = booked_shifts s \<and>
   (case book_shift cfg env sd r s of
      (res, s') \<Rightarrow>
        if res = Inr True then
          \<exists>b. booked_shifts s' = booked_shifts s @ [b] \<and>
              b ''title'' = Some (get_or_unknown sd ''title'') \<and>
              b ''date'' = Some (get_or_unknown sd ''date'')
        else booked_shifts s' = booked_shifts s) \<and>
   (case run_continuous_booking n cfg env s of
      None \<Rightarrow> True
    | Some (res, s') \<Rightarrow> prefix (booked_shifts s) (booked_shifts s'))"
proof -
  have a: "booked_shifts (init em pw hl w) = []" by (simp add: init_def)
  have b: "booked_shifts (snd (setup_driver cfg env s)) = booked_shifts s"
    by (rule keeps_snd[OF keeps_booked_setup_driver])
  have c: "booked_shifts (snd (login cfg env r s)) = booked_shifts s"
    by (rule keeps_snd[OF keeps_booked_login])
  have d: "booked_shifts (snd (navigate_to_shifts env s)) = booked_shifts s"
    by (rule keeps_snd[OF keeps_booked_navigate])
  have e: "booked_shifts (snd (search_shifts env loc ty s)) = booked_shifts s"
    by (rule keeps_snd[OF keeps_booked_search])
  have f: "booked_shifts (snd (get_available_shifts env s)) = booked_shifts s"
    by (rule keeps_snd[OF keeps_booked_get_available])
  have g: "booked_shifts (snd (close env s)) = booked_shifts s"
    by (rule keeps_snd[OF keeps_booked_close])
  have h: "case book_shift cfg env sd r s of
      (res, s') \<Rightarrow>
        if res = Inr True then
          \<exists>b. booked_shifts s' = booked_shifts s @ [b] \<and>
              b ''title'' = Some (get_or_unknown sd ''title'') \<and>
              b ''date'' = Some (get_or_unknown sd ''date'')
        else booked_shifts s' = booked_shifts s"
    using books_book_shift[of sd cfg env r]
    by (simp add: books_def appended_def split: prod.splits) (metis fst_conv snd_conv)
  have i: "case run_continuous_booking n cfg env s of
      None \<Rightarrow> True
    | Some (res, s') \<Rightarrow> prefix (booked_shifts s) (booked_shifts s')"
    using run_continuous_booking_prefix[of n cfg env s]
    by (simp split: option.splits prod.splits)
  from a b c d e f g h i show ?thesis by blast
qed


section \<open>Outcomes that cannot happen\<close>

lemma avoidsD: "avoids E m \<Longrightarrow> fst (m s) = Inl e \<Longrightarrow> \<not> E e"
  unfolding avoids_def by (metis (mono_tags, lifting) old.sum.simps(5))

lemma avoidsI: "(\<And>s e. fst (m s) = Inl e \<Longrightarrow> \<not> E e) \<Longrightarrow> avoids E m"
  unfolding avoids_def by (auto split: sum.splits)

lemma avoids_weaken: "avoids E m \<Longrightarrow> (\<And>e. E' e \<Longrightarrow> E e) \<Longrightarrow> avoids E' m"
  by (meson avoidsD avoidsI)

lemma avoids_ret: "avoids E (ret x)"
  by (rule avoidsI) (simp add: ret_def)


lemma avoids_log: "avoids E (log l msg)"
  by (rule avoidsI) (simp add: log_def)



lemma avoids_catch_exc:
  assumes "E KeyboardInterrupt \<Longrightarrow> avoids (\<lambda>e. e = KeyboardInterrupt) m"
    and "\<And>e. avoids E (h e)" and "\<And>x. avoids E (k x)"
  shows "avoids E (catch_exc m h k)"
proof (rule avoidsI)
  fix s e
  assume a: "fst (catch_exc m h k s) = Inl e"
  obtain r s1 where m: "m s = (r, s1)" by (cases "m s")
  show "\<not> E e"
  proof (cases r)
    case (Inl e1)
    show ?thesis
    proof (cases e1)
      case (Exception msg)
      then have "fst (h msg s1) = Inl e" using a m Inl by (simp add: catch_exc_def)
      then show ?thesis using avoidsD[OF assms(2)] by blast
    next
      case KeyboardInterrupt
      then have e: "e = KeyboardInterrupt" using a m Inl by (simp add: catch_exc_def)
      have "fst (m s) = Inl KeyboardInterrupt" using m Inl KeyboardInterrupt by simp
      then show ?thesis using avoidsD[OF assms(1)] e by blast
    qed
  next
    case (Inr x)
    then have "fst (k x s1) = Inl e" using a m by (simp add: catch_exc_def)
    then show ?thesis using avoidsD[OF assms(3)] by blast
  qed
qed

lemma avoids_catch_bare:
  assumes "avoids E h" and "\<And>x. avoids E (k x)"
  shows "avoids E (catch_bare m h k)"
proof (rule avoidsI)
  fix s e
  assume a: "fst (catch_bare m h k s) = Inl e"
  obtain r s1 where m: "m s = (r, s1)" by (cases "m s")
  show "\<not> E e"
  proof (cases r)
    case (Inl e1)
    then have "fst (h s1) = Inl e" using a m by (simp add: catch_bare_def)
    then show ?thesis using avoidsD[OF assms(1)] by blast
  next
    case (Inr x)
    then have "fst (k x s1) = Inl e" using a m by (simp add: catch_bare_def)
    then show ?thesis using avoidsD[OF assms(2)] by blast
  qed
qed

lemma avoids_bind:
  assumes "avoids E m" and "\<And>x. avoids E (k x)"
  shows "avoids E (bind m k)"
proof (rule avoidsI)
  fix s e
  assume a: "fst (bind m k s) = Inl e"
  obtain r s1 where m: "m s = (r, s1)" by (cases "m s")
  show "\<not> E e"
  proof (cases r)
    case (Inl e1)
    then have "fst (m s) = Inl e" using a m by (simp add: bind_def)
    then show ?thesis using avoidsD[OF assms(1)] by blast
  next
    case (Inr x)
    then have "fst (k x s1) = Inl e" using a m by (simp add: bind_def)
    then show ?thesis using avoidsD[OF assms(2)] by blast
  qed
qed

lemma avoids_seq: "avoids E m \<Longrightarrow> avoids E k \<Longrightarrow> avoids E (seq m k)"
  by (simp add: seq_def avoids_bind)

lemma avoids_try_bare: "avoids E h \<Longrightarrow> avoids E (try_bare m h)"
  by (simp add: try_bare_catch avoids_catch_bare avoids_ret)

lemma avoids_try_exc:
  "(E KeyboardInterrupt \<Longrightarrow> avoids (\<lambda>e. e = KeyboardInterrupt) m) \<Longrightarrow>
   (\<And>e. avoids E (h e)) \<Longrightarrow> avoids E (try_exc m h)"
  by (simp add: try_exc_catch avoids_catch_exc avoids_ret)

lemma avoids_if: "(c \<Longrightarrow> avoids E a) \<Longrightarrow> (\<not> c \<Longrightarrow> avoids E b) \<Longrightarrow> avoids E (if c then a else b)"
  by simp


section \<open>\<open>get_available_shifts\<close> always returns\<close>

lemma avoids_select_elements: "avoids E (select_elements env xs cur)"
proof (induction xs arbitrary: cur)
  case Nil
  show ?case by (rule avoidsI) simp
next
  case (Cons x xs)
  show ?case
    unfolding select_elements_unfold
    by (intro avoids_catch_bare avoids_if avoids_ret Cons)
qed

lemma avoids_set_field: "avoids E (set_field env shift key xpath info)"
  unfolding set_field_def by (intro avoids_try_bare avoids_ret)

lemma avoids_parse_shift: "avoids E (parse_shift env idx shift)"
  unfolding parse_shift_def by (intro avoids_bind avoids_set_field)

lemma avoids_scan_shifts: "avoids E (scan_shifts env idx els shifts)"
proof (induction els arbitrary: idx shifts)
  case Nil
  show ?case by (rule avoidsI) simp
next
  case (Cons x xs)
  show ?case
    unfolding scan_shifts_unfold
    by (intro avoids_catch_exc avoids_seq avoids_log avoids_parse_shift Cons)
qed

lemma avoids_get_available_shifts: "avoids E (get_available_shifts env)"
  unfolding get_available_shifts_def
  by (intro avoids_try_exc avoids_bind avoids_seq avoids_log avoids_ret
        avoids_select_elements avoids_scan_shifts)


section \<open>The records of \<open>get_available_shifts\<close>\<close>

lemma returnsE:
  assumes "avoids (\<lambda>_. True) m"
  obtains x s' where "m s = (Inr x, s')"
proof -
  obtain r s' where m: "m s = (r, s')" by (cases "m s")
  show ?thesis
  proof (cases r)
    case (Inl e)
    then have "fst (m s) = Inl e" using m by simp
    then show ?thesis using avoidsD[OF assms] by blast
  next
    case (Inr x)
    then show ?thesis using m that by blast
  qed
qed

lemma set_field_result:
  "fst (set_field env shift key xpath info s) =
     Inr (info(key \<mapsto> VStr (field_text env shift xpath s)))"
  by (simp add: set_field_def field_text_def try_bare_def bind_def ret_def
      split: prod.splits sum.splits)

lemma set_field_eq:
  "\<exists>s'. set_field env shift key xpath info s =
          (Inr (info(key \<mapsto> VStr (field_text env shift xpath s))), s')"
  using set_field_result[of env shift key xpath info s]
  by (cases "set_field env shift key xpath info s") simp

lemma parse_shift_result:
  "\<exists>s1 s2 s3 s4 s5.
     parse_shift env idx shift s =
       (Inr [''index'' \<mapsto> VInt idx, ''element'' \<mapsto> VElem shift,
             ''title'' \<mapsto> VStr (field_text env shift title_xpath s),
             ''location'' \<mapsto> VStr (field_text env shift location_xpath s1),
             ''date'' \<mapsto> VStr (field_text env shift date_xpath s2),
             ''time'' \<mapsto> VStr (field_text env shift time_xpath s3),
             ''pay'' \<mapsto> VStr (field_text env shift pay_xpath s4)], s5)"
proof -
  let ?i0 = "[''index'' \<mapsto> VInt idx, ''element'' \<mapsto> VElem shift]"
  obtain s1 where a1: "set_field env shift ''title'' title_xpath ?i0 s =
      (Inr (?i0(''title'' \<mapsto> VStr (field_text env shift title_xpath s))), s1)"
    using set_field_eq by blast
  let ?i1 = "?i0(''title'' \<mapsto> VStr (field_text env shift title_xpath s))"
  obtain s2 where a2: "set_field env shift ''location'' location_xpath ?i1 s1 =
      (Inr (?i1(''location'' \<mapsto> VStr (field_text env shift location_xpath s1))), s2)"
    using set_field_eq by blast
  let ?i2 = "?i1(''location'' \<mapsto> VStr (field_text env shift location_xpath s1))"
  obtain s3 where a3: "set_field env shift ''date'' date_xpath ?i2 s2 =
      (Inr (?i2(''date'' \<mapsto> VStr (field_text env shift date_xpath s2))), s3)"
    using set_field_eq by blast
  let ?i3 = "?i2(''date'' \<mapsto> VStr (field_text env shift date_xpath s2))"
  obtain s4 where a4: "set_field env shift ''time'' time_xpath ?i3 s3 =
      (Inr (?i3(''time'' \<mapsto> VStr (field_text env shift time_xpath s3))), s4)"
    using set_field_eq by blast
  let ?i4 = "?i3(''time'' \<mapsto> VStr (field_text env shift time_xpath s3))"
  obtain s5 where a5: "set_field env shift ''pay'' pay_xpath ?i4 s4 =
      (Inr (?i4(''pay'' \<mapsto> VStr (field_text env shift pay_xpath s4))), s5)"
    using set_field_eq by blast
  have "parse_shift env idx shift s =
      (Inr (?i4(''pay'' \<mapsto> VStr (field_text env shift pay_xpath s4))), s5)"
    unfolding parse_shift_def bind_def using a1 a2 a3 a4 a5 by simp
  then show ?thesis by blast
qed

lemma parse_shift_element:
  "parse_shift env idx shift s = (Inr r, s') \<Longrightarrow> r ''element'' = Some (VElem shift)"
  using parse_shift_result[of env idx shift s] by auto

lemma scan_shifts_records:
  "scan_shifts env idx els acc s = (Inr out, s') \<Longrightarrow> r \<in> set out \<Longrightarrow>
   r \<in> set acc \<or> (\<exists>i el s0. fst (parse_shift env i el s0) = Inr r)"
proof (induction els arbitrary: idx acc s)
  case Nil
  then show ?case by simp
next
  case (Cons el els)
  obtain info s1 where p: "parse_shift env idx el s = (Inr info, s1)"
    using returnsE[OF avoids_parse_shift] by blast
  let ?s2 = "logI DEBUG (''Shift '' @ show_int idx @ '': '' @
                         str_val (get_or_unknown info ''title'') @ '' - '' @
                         str_val (get_or_unknown info ''date'')) s1"
  have "scan_shifts env (idx + 1) els (acc @ [info]) ?s2 = (Inr out, s')"
    using Cons.prems(1) p by simp
  from Cons.IH[OF this Cons.prems(2)]
  show ?case
  proof
    assume "r \<in> set (acc @ [info])"
    then show ?thesis using p by (auto intro: exI[of _ idx]) (metis fst_conv)
  next
    assume "\<exists>i el s0. fst (parse_shift env i el s0) = Inr r"
    then show ?thesis by blast
  qed
qed

lemma scan_shifts_elements:
  "scan_shifts env idx els acc s = (Inr out, s') \<Longrightarrow>
   map (\<lambda>r. r ''element'') out = map (\<lambda>r. r ''element'') acc @ map (\<lambda>e. Some (VElem e)) els"
proof (induction els arbitrary: idx acc s)
  case Nil
  then show ?case by simp
next
  case (Cons el els)
  obtain info s1 where p: "parse_shift env idx el s = (Inr info, s1)"
    using returnsE[OF avoids_parse_shift] by blast
  let ?s2 = "logI DEBUG (''Shift '' @ show_int idx @ '': '' @
                         str_val (get_or_unknown info ''title'') @ '' - '' @
                         str_val (get_or_unknown info ''date'')) s1"
  have "scan_shifts env (idx + 1) els (acc @ [info]) ?s2 = (Inr out, s')"
    using Cons.prems(1) p by simp
  from Cons.IH[OF this] show ?case
    using parse_shift_element[OF p] by simp
qed

lemma get_available_shifts_eq:
  "\<exists>els s1 shifts s2 s3.
     select_elements env selectors [] s = (Inr els, s1) \<and>
     scan_shifts env 0 els [] s2 = (Inr shifts, s3) \<and>
     fst (get_available_shifts env s) = Inr shifts"
proof -
  obtain els s1 where a: "select_elements env selectors [] s = (Inr els, s1)"
    using returnsE[OF avoids_select_elements] by blast
  let ?s2 = "logI INFO (''Found '' @ show_nat (length els) @ '' shift elements'') s1"
  obtain shifts s3 where b: "scan_shifts env 0 els [] ?s2 = (Inr shifts, s3)"
    using returnsE[OF avoids_scan_shifts] by blast
  have "fst (get_available_shifts env s) = Inr shifts"
    using a b by (simp add: get_available_shifts_def try_exc_def bind_def seq_def log_def ret_def)
  then show ?thesis using a b by blast
qed

section \<open>The first candidate that succeeds\<close>

lemma select_elements_Nil_acc:
  "select_elements env sels [] s = (Inr els, s') \<Longrightarrow> els \<noteq> [] \<Longrightarrow>
   \<exists>pre x post s1. sels = pre @ x # post \<and>
      select_elements env pre [] s = (Inr [], s1) \<and>
      with_driver (\<lambda>d. drv_find_elements env d XPATH x) s1 = (Inr els, s')"
proof (induction sels arbitrary: s)
  case Nil
  then show ?case by simp
next
  case (Cons x sels)
  obtain r s1 where f: "with_driver (\<lambda>d. drv_find_elements env d XPATH x) s = (r, s1)"
    by (cases "with_driver (\<lambda>d. drv_find_elements env d XPATH x) s")
  have first: ?case if "r = Inr els"
  proof -
    have "x # sels = [] @ x # sels \<and> select_elements env [] [] s = (Inr [], s) \<and>
          with_driver (\<lambda>d. drv_find_elements env d XPATH x) s = (Inr els, s')"
      using Cons.prems f that by simp
    then show ?thesis by blast
  qed
  have later: ?case if rest: "select_elements env sels [] s1 = (Inr els, s')"
    and skip: "select_elements env [x] [] s = (Inr [], s1)"
  proof -
    from Cons.IH[OF rest Cons.prems(2)]
    obtain pre y post s2 where d: "sels = pre @ y # post"
      "select_elements env pre [] s1 = (Inr [], s2)"
      "with_driver (\<lambda>d. drv_find_elements env d XPATH y) s2 = (Inr els, s')"
      by blast
    have "select_elements env (x # pre) [] s = (Inr [], s2)"
      using skip d(2) f by (auto split: sum.splits if_splits)
    then have "x # sels = (x # pre) @ y # post \<and>
          select_elements env (x # pre) [] s = (Inr [], s2) \<and>
          with_driver (\<lambda>d. drv_find_elements env d XPATH y) s2 = (Inr els, s')"
      using d by simp
    then show ?thesis by blast
  qed
  show ?case
  proof (cases r)
    case (Inl e)
    then show ?thesis using Cons.prems f later by simp
  next
    case (Inr found)
    show ?thesis
    proof (cases "found = []")
      case True
      then show ?thesis using Cons.prems f Inr later by simp
    next
      case False
      then show ?thesis using Cons.prems f Inr first by simp
    qed
  qed
qed

lemma click_first_True:
  "click_first env xs s = (Inr True, s') \<Longrightarrow>
   \<exists>pre x post s1 l s2 s3. xs = pre @ x # post \<and>
      click_first env pre s = (Inr False, s1) \<and>
      with_wait (\<lambda>d. until_clickable env d x) s1 = (Inr l, s2) \<and>
      lift (el_click env l) s2 = (Inr (), s3) \<and>
      s' = logI INFO ''Found and clicked shifts link'' s3"
proof (induction xs arbitrary: s)
  case Nil
  then show ?case by simp
next
  case (Cons x xs)
  let ?m = "bind (with_wait (\<lambda>d. until_clickable env d x)) (\<lambda>l. lift (el_click env l))"
  obtain r s1 where m: "?m s = (r, s1)" by (cases "?m s")
  show ?case
  proof (cases r)
    case (Inr u)
    then obtain l s2 where w: "with_wait (\<lambda>d. until_clickable env d x) s = (Inr l, s2)"
      and c: "lift (el_click env l) s2 = (Inr (), s1)"
      using m by (auto simp: bind_def split: prod.splits sum.splits)
    have "s' = logI INFO ''Found and clicked shifts link'' s1"
      using Cons.prems m Inr by simp
    then have "x # xs = [] @ x # xs \<and> click_first env [] s = (Inr False, s) \<and>
        with_wait (\<lambda>d. until_clickable env d x) s = (Inr l, s2) \<and>
        lift (el_click env l) s2 = (Inr (), s1) \<and>
        s' = logI INFO ''Found and clicked shifts link'' s1"
      using w c by simp
    then show ?thesis by blast
  next
    case (Inl e)
    then have rest: "click_first env xs s1 = (Inr True, s')" using Cons.prems m by simp
    from Cons.IH[OF rest]
    obtain pre y post s2 l s3 s4 where d: "xs = pre @ y # post"
      "click_first env pre s1 = (Inr False, s2)"
      "with_wait (\<lambda>d. until_clickable env d y) s2 = (Inr l, s3)"
      "lift (el_click env l) s3 = (Inr (), s4)"
      "s' = logI INFO ''Found and clicked shifts link'' s4"
      by blast
    have "click_first env (x # pre) s = (Inr False, s2)" using m Inl d(2) by simp
    then have "x # xs = (x # pre) @ y # post \<and>
        click_first env (x # pre) s = (Inr False, s2) \<and>
        with_wait (\<lambda>d. until_clickable env d y) s2 = (Inr l, s3) \<and>
        lift (el_click env l) s3 = (Inr (), s4) \<and>
        s' = logI INFO ''Found and clicked shifts link'' s4"
      using d by simp
    then show ?thesis by blast
  qed
qed

lemma click_first_drv_get: "click_first (env\<lparr>drv_get := g\<rparr>) xs = click_first env xs"
proof (induction xs)
  case Nil
  show ?case by (rule ext) simp
next
  case (Cons x xs)
  show ?case by (simp add: click_first_unfold Cons)
qed

lemma sleep_drv_get: "sleep (env\<lparr>drv_get := g\<rparr>) n = sleep env n"
  by (rule ext) (simp add: sleep_def)

lemma navigate_found:
  assumes "fst (click_first env xpath_options (logI INFO ''Navigating to available shifts...'' s)) = Inr True"
  shows "navigate_to_shifts (env\<lparr>drv_get := g\<rparr>) s = navigate_to_shifts env s"
proof -
  let ?s0 = "logI INFO ''Navigating to available shifts...'' s"
  obtain s1 where c: "click_first env xpath_options ?s0 = (Inr True, s1)"
    using assms by (cases "click_first env xpath_options ?s0") simp
  show ?thesis
    unfolding navigate_to_shifts_def
    by (simp add: try_exc_def seq_def bind_def log_def ret_def click_first_drv_get sleep_drv_get c)
qed

lemma navigate_fallback:
  assumes "click_first env xpath_options (logI INFO ''Navigating to available shifts...'' s) = (Inr False, s1)"
  shows "navigate_to_shifts env s =
     try_exc
       (seq (with_driver (\<lambda>d. drv_get env d ''https://www.nhsprofessionals.nhs.uk/search-shifts''))
          (seq (sleep env 3) (log INFO ''Navigated to shifts section'')))
       (\<lambda>e. seq (log ERROR (''Navigation to shifts failed: '' @ e)) (raise (Exception e)))
       (logI WARNING ''Could not find shifts link, trying direct URL'' s1)"
  unfolding navigate_to_shifts_def
  by (simp add: try_exc_def seq_def bind_def log_def assms)

lemma get_available_elements:
  "\<exists>els s1. select_elements env selectors [] s = (Inr els, s1) \<and>
     (\<exists>shifts. fst (get_available_shifts env s) = Inr shifts \<and>
        map (\<lambda>r. r ''element'') shifts = map (\<lambda>e. Some (VElem e)) els)"
proof -
  obtain els s1 shifts s2 s3 where
    a: "select_elements env selectors [] s = (Inr els, s1)" and
    b: "scan_shifts env 0 els [] s2 = (Inr shifts, s3)" and
    c: "fst (get_available_shifts env s) = Inr shifts"
    using get_available_shifts_eq[of env s] by blast
  have "map (\<lambda>r. r ''element'') shifts = map (\<lambda>e. Some (VElem e)) els"
    using scan_shifts_elements[OF b] by simp
  then show ?thesis using a c by blast
qed

section \<open>Counting\<close>

lemma addsD: "adds f n m \<Longrightarrow> m s = (r, s') \<Longrightarrow> f s' \<le> f s + n"
  by (metis adds_def snd_conv)

lemma adds_keeps: "keeps f m \<Longrightarrow> adds f n m"
  by (simp add: adds_def keeps_def)

lemma adds_mono: "adds f n m \<Longrightarrow> n \<le> n' \<Longrightarrow> adds f n' m"
  unfolding adds_def by (meson add_left_mono le_trans)

lemma adds_catch_exc:
  assumes "adds f a m" and "\<And>e. adds f b (h e)" and "\<And>x. adds f b (k x)"
  shows "adds f (a + b) (catch_exc m h k)"
  unfolding adds_def
proof
  fix s
  obtain r s1 where m: "m s = (r, s1)" by (cases "m s")
  have p1: "f s1 \<le> f s + a" using addsD[OF assms(1) m] .
  show "f (snd (catch_exc m h k s)) \<le> f s + (a + b)"
  proof (cases r)
    case (Inl e)
    show ?thesis
    proof (cases e)
      case (Exception msg)
      have "f (snd (h msg s1)) \<le> f s1 + b" using assms(2) by (simp add: adds_def)
      then show ?thesis using m Inl Exception p1 by (simp add: catch_exc_def)
    next
      case KeyboardInterrupt
      then show ?thesis using m Inl p1 by (simp add: catch_exc_def)
    qed
  next
    case (Inr x)
    have "f (snd (k x s1)) \<le> f s1 + b" using assms(3) by (simp add: adds_def)
    then show ?thesis using m Inr p1 by (simp add: catch_exc_def)
  qed
qed

lemma adds_bind:
  assumes "adds f a m" and "\<And>x. adds f b (k x)"
  shows "adds f (a + b) (bind m k)"
proof -
  have eq: "bind m k = catch_exc m (\<lambda>e. raise (Exception e)) k"
    by (rule ext) (simp add: bind_def catch_exc_def raise_def split: prod.splits sum.splits exn.splits)
  have r: "adds f b (raise (Exception e))" for e
    by (rule adds_keeps) (rule keeps_raise)
  show ?thesis
    unfolding eq by (rule adds_catch_exc[OF assms(1) r assms(2)])
qed

lemma adds_seq: "adds f a m \<Longrightarrow> adds f b k \<Longrightarrow> adds f (a + b) (seq m k)"
  unfolding seq_def by (rule adds_bind)

lemma adds_seq_keeps: "keeps f m \<Longrightarrow> adds f n k \<Longrightarrow> adds f n (seq m k)"
  using adds_seq[OF adds_keeps[of f m 0], of n k] by simp

lemma adds_catch_keeps:
  "keeps f m \<Longrightarrow> (\<And>e. adds f n (h e)) \<Longrightarrow> (\<And>x. adds f n (k x)) \<Longrightarrow>
   adds f n (catch_exc m h k)"
  using adds_catch_exc[OF adds_keeps[of f m 0], of n h k] by simp

lemma adds_try_keeps:
  assumes "adds f n m" and "\<And>e. keeps f (h e)"
  shows "adds f n (try_exc m h)"
proof -
  have "adds f (n + 0) (catch_exc m h ret)"
    by (rule adds_catch_exc[OF assms(1)]) (simp_all add: adds_keeps assms(2) keeps_ret)
  then show ?thesis by (simp add: try_exc_catch)
qed

lemma adds_if: "(c \<Longrightarrow> adds f n a) \<Longrightarrow> (\<not> c \<Longrightarrow> adds f n b) \<Longrightarrow> adds f n (if c then a else b)"
  by simp

subsection \<open>Attempts of \<open>login\<close>\<close>

lemma login_attempts_logI:
  "login_attempts (logI l msg s) =
     (if is_login_start (l, msg) then Suc (login_attempts s) else login_attempts s)"
  by (simp add: login_attempts_def logI_def)

lemma world_free_login_attempts [simp]: "world_free login_attempts"
  by (simp add: world_free_def login_attempts_def)

lemma adds_login_pre: "adds login_attempts 1 (login_pre env)"
proof -
  have a: "adds login_attempts 1 (log INFO ''Starting login process...'')"
    by (simp add: adds_def log_def login_attempts_logI)
  have b: "keeps login_attempts
       (seq (seq (with_driver (\<lambda>d. drv_get env d ''https://www.nhsprofessionals.nhs.uk/'')) (sleep env 3))
          (seq (login_button env) (login_iframe env)))"
    unfolding login_button_def login_iframe_def
    by (intro keeps_intros; simp add: login_attempts_logI is_login_start_def)
  have c: "login_pre env =
      seq (log INFO ''Starting login process...'')
        (seq (seq (with_driver (\<lambda>d. drv_get env d ''https://www.nhsprofessionals.nhs.uk/'')) (sleep env 3))
          (seq (login_button env) (login_iframe env)))"
    unfolding login_pre_def login_open_def
    by (rule ext) (simp add: seq_def bind_def split: prod.splits sum.splits)
  show ?thesis
    unfolding c using adds_seq[OF a adds_keeps[OF b, of 0]] by simp
qed

lemma keeps_login_attempts_email: "keeps login_attempts (login_email env)"
  unfolding login_email_def
  by (intro keeps_intros; simp add: login_attempts_logI is_login_start_def)

lemma keeps_login_attempts_post: "keeps login_attempts (login_post env)"
  unfolding login_post_def login_password_def login_submit_def login_finish_def
  by (intro keeps_intros; simp add: login_attempts_logI is_login_start_def)

lemma adds_login:
  "adds login_attempts (1 + nat (MAX_RETRY_ATTEMPTS cfg - r)) (login cfg env r)"
proof (induction "nat (MAX_RETRY_ATTEMPTS cfg - r)" arbitrary: r rule: less_induct)
  case less
  let ?N = "nat (MAX_RETRY_ATTEMPTS cfg - r)"
  have rec: "adds login_attempts ?N (login cfg env (r + 1))" if "r < MAX_RETRY_ATTEMPTS cfg"
  proof -
    have "adds login_attempts (1 + nat (MAX_RETRY_ATTEMPTS cfg - (r + 1))) (login cfg env (r + 1))"
      using that by (intro less) simp
    then show ?thesis by (rule adds_mono) (use that in simp)
  qed
  have prep: "keeps login_attempts
      (seq (log INFO (''Retrying login... Attempt '' @ show_int (r + 1)))
         (seq (sleep env (RETRY_DELAY_SECONDS cfg)) (with_driver (drv_refresh env))))"
    by (intro keeps_intros; simp add: login_attempts_logI is_login_start_def)
  have l: "keeps login_attempts (log ERROR (''Failed to find email field: '' @ e))" for e
    by (intro keeps_intros; simp add: login_attempts_logI is_login_start_def)
  have fin: "keeps login_attempts (seq (log ERROR (''Login failed: '' @ e)) (raise (Exception e)))" for e
    by (intro keeps_intros; simp add: login_attempts_logI is_login_start_def)
  have "adds login_attempts (1 + ?N)
     (try_exc
       (seq (login_pre env)
          (catch_exc (login_email env)
             (\<lambda>e. seq (log ERROR (''Failed to find email field: '' @ e))
                    (if r < MAX_RETRY_ATTEMPTS cfg then
                       seq (seq (log INFO (''Retrying login... Attempt '' @ show_int (r + 1)))
                              (seq (sleep env (RETRY_DELAY_SECONDS cfg)) (with_driver (drv_refresh env))))
                         (login cfg env (r + 1))
                     else raise (Exception e)))
             (\<lambda>_. login_post env)))
       (\<lambda>e. seq (log ERROR (''Login failed: '' @ e)) (raise (Exception e))))"
    by (intro adds_try_keeps adds_seq[OF adds_login_pre] adds_catch_keeps adds_seq_keeps
          adds_if keeps_login_attempts_email l prep fin rec
          adds_keeps[OF keeps_raise] adds_keeps[OF keeps_login_attempts_post])
  then show ?case by (subst login_unfold)
qed

subsection \<open>Attempts of \<open>book_shift\<close>\<close>

lemma book_attempts_logI:
  "book_attempts (logI l msg s) =
     (if is_book_attempt (l, msg) then Suc (book_attempts s) else book_attempts s)"
  by (simp add: book_attempts_def logI_def)

lemma world_free_book_attempts [simp]: "world_free book_attempts"
  by (simp add: world_free_def book_attempts_def)

lemma book_start_attempts:
  "book_attempts (snd (book_start env t d s)) = book_attempts s + 1"
proof -
  let ?msg = "''Attempting to book shift: '' @ str_val t @ '' on '' @ str_val d"
  have k: "keeps book_attempts
      (seq (with_driver (\<lambda>dr. drv_execute_script env dr ''arguments[0].scrollIntoView(true);''))
         (sleep env 1))"
    by (intro keeps_intros; simp)
  have "snd (book_start env t d s) =
      snd (seq (with_driver (\<lambda>dr. drv_execute_script env dr ''arguments[0].scrollIntoView(true);''))
             (sleep env 1) (logI INFO ?msg s))"
    by (simp add: book_start_def seq_def bind_def log_def)
  then have "book_attempts (snd (book_start env t d s)) = book_attempts (logI INFO ?msg s)"
    using keeps_snd[OF k] by simp
  then show ?thesis by (simp add: book_attempts_logI is_book_attempt_def)
qed

lemma keeps_attempts_book_click: "keeps book_attempts (book_click env sd)"
proof -
  have a: "keeps book_attempts
     (case sd ''element'' of
        None \<Rightarrow> raise (Exception ''KeyError'')
      | Some (VElem el) \<Rightarrow>
          lift (el_find_element env el
            ''.//button[contains(text(), 'Book')] | .//a[contains(text(), 'Apply')] | .//button[contains(text(), 'Apply')] | .//button[contains(@class, 'book')]'')
      | Some _ \<Rightarrow> raise (Exception ''AttributeError''))"
    by (auto split: option.splits pyval.splits intro: keeps_raise keeps_lift)
  show ?thesis
    unfolding book_click_def
    by (intro keeps_bind a keeps_seq keeps_lift keeps_log keeps_sleep;
        simp add: book_attempts_logI is_book_attempt_def)
qed

lemma keeps_attempts_book_confirm: "keeps book_attempts (book_confirm env)"
  unfolding book_confirm_def
  by (intro keeps_intros; simp add: book_attempts_logI is_book_attempt_def)

lemma keeps_attempts_append: "keeps book_attempts (append_booking env t d)"
  by (simp add: keeps_def append_booking_def book_attempts_def)

lemma keeps_attempts_check_success: "keeps book_attempts (check_success env t d inds)"
proof (induction inds)
  case Nil
  show ?case
    unfolding check_success_Nil
    by (intro keeps_intros keeps_attempts_append; simp add: book_attempts_logI is_book_attempt_def)
next
  case (Cons i inds)
  show ?case
    unfolding check_success_unfold
    by (intro keeps_intros keeps_attempts_append Cons; simp add: book_attempts_logI is_book_attempt_def)
qed

lemma keeps_attempts_book_verify: "keeps book_attempts (book_verify env t d)"
  unfolding book_verify_def
  by (intro keeps_intros keeps_attempts_check_success; simp add: book_attempts_logI is_book_attempt_def)

subsection \<open>What \<open>book_shift\<close> can raise\<close>

lemma sleep_negative: "n < 0 \<Longrightarrow> sleep env n s = (Inl (Exception ''ValueError''), s)"
  by (simp add: sleep_def)

lemma avoids_exc_sleep: "0 \<le> n \<Longrightarrow> avoids (\<lambda>e. e \<noteq> KeyboardInterrupt) (sleep env n)"
  by (rule avoidsI) (auto simp: sleep_def split: prod.splits bool.splits if_splits)

lemma avoids_exc_book_confirm: "avoids E (book_confirm env)"
  unfolding book_confirm_def by (intro avoids_try_bare avoids_log)

lemma avoids_exc_book_verify: "avoids (\<lambda>e. e \<noteq> KeyboardInterrupt) (book_verify env t d)"
  unfolding book_verify_def
  by (intro avoids_try_exc avoids_seq avoids_log avoids_ret) simp

text \<open>A handler that sleeps a negative time raises before it retries.\<close>

lemma retry_negative:
  "n < 0 \<Longrightarrow> seq (seq (log l msg) (sleep env n)) k = seq (log l msg) (raise (Exception ''ValueError''))"
  by (rule ext) (simp add: seq_def bind_def log_def raise_def sleep_negative)

lemma try_exc_split:
  assumes "\<And>s. f (snd (m s)) \<le> f s + (case fst (m s) of Inl (Exception e) \<Rightarrow> a | _ \<Rightarrow> a + b)"
    and "\<And>e. adds f b (h e)"
  shows "adds f (a + b) (try_exc m h)"
  unfolding adds_def
proof
  fix s
  obtain r s1 where m: "m s = (r, s1)" by (cases "m s")
  have p: "f s1 \<le> f s + (case r of Inl (Exception e) \<Rightarrow> a | _ \<Rightarrow> a + b)"
    using assms(1)[of s] m by simp
  show "f (snd (try_exc m h s)) \<le> f s + (a + b)"
  proof (cases r)
    case (Inl e)
    show ?thesis
    proof (cases e)
      case (Exception msg)
      have "f (snd (h msg s1)) \<le> f s1 + b" using assms(2) by (simp add: adds_def)
      moreover have "f s1 \<le> f s + a" using p Inl Exception by simp
      ultimately show ?thesis using m Inl Exception by (simp add: try_exc_def)
    next
      case KeyboardInterrupt
      then show ?thesis using m Inl p by (simp add: try_exc_def)
    qed
  next
    case (Inr x)
    then show ?thesis using m p by (simp add: try_exc_def)
  qed
qed

lemma seq_split:
  assumes "\<And>s. f (snd (m s)) = f s + a"
    and "avoids (\<lambda>e. e \<noteq> KeyboardInterrupt) k" and "adds f b k"
  shows "f (snd (seq m k s)) \<le> f s + (case fst (seq m k s) of Inl (Exception e) \<Rightarrow> a | _ \<Rightarrow> a + b)"
proof -
  obtain r s1 where m: "m s = (r, s1)" by (cases "m s")
  have p: "f s1 = f s + a" using assms(1)[of s] m by simp
  show ?thesis
  proof (cases r)
    case (Inl e)
    then have "seq m k s = (Inl e, s1)" using m by (simp add: seq_def bind_def)
    then show ?thesis using p by (cases e) simp_all
  next
    case (Inr x)
    then have eq: "seq m k s = k s1" using m by (simp add: seq_def bind_def)
    have q: "f (snd (k s1)) \<le> f s1 + b" using assms(3) by (simp add: adds_def)
    show ?thesis
    proof (cases "fst (k s1)")
      case (Inl e)
      then have "e = KeyboardInterrupt" using avoidsD[OF assms(2)] by blast
      then show ?thesis using eq Inl p q by simp
    next
      case (Inr y)
      then show ?thesis using eq p q by simp
    qed
  qed
qed

lemma adds_keeps_seq: "adds f n m \<Longrightarrow> keeps f k \<Longrightarrow> adds f n (seq m k)"
  using adds_seq[OF _ adds_keeps[of f k 0], of n m] by simp

lemma book_shift_bounded_nonneg:
  assumes d: "0 \<le> RETRY_DELAY_SECONDS cfg"
  shows "avoids (\<lambda>e. e \<noteq> KeyboardInterrupt) (book_shift cfg env sd r) \<and>
         adds book_attempts (1 + nat (MAX_RETRY_ATTEMPTS cfg - r)) (book_shift cfg env sd r)"
proof (induction "nat (MAX_RETRY_ATTEMPTS cfg - r)" arbitrary: r rule: less_induct)
  case less
  let ?N = "nat (MAX_RETRY_ATTEMPTS cfg - r)"
  let ?t = "get_or_unknown sd ''title''" and ?d = "get_or_unknown sd ''date''"
  let ?E = "\<lambda>e. e \<noteq> KeyboardInterrupt"
  have rec_av: "avoids ?E (book_shift cfg env sd (r + 1))" if "r < MAX_RETRY_ATTEMPTS cfg"
    using that less[of "r + 1"] by simp
  have rec_ad: "adds book_attempts ?N (book_shift cfg env sd (r + 1))" if "r < MAX_RETRY_ATTEMPTS cfg"
  proof -
    have "adds book_attempts (1 + nat (MAX_RETRY_ATTEMPTS cfg - (r + 1))) (book_shift cfg env sd (r + 1))"
      using that less[of "r + 1"] by simp
    then show ?thesis by (rule adds_mono) (use that in simp)
  qed
  let ?retry = "\<lambda>msg. if r < MAX_RETRY_ATTEMPTS cfg then
                       seq (seq (log INFO msg) (sleep env (RETRY_DELAY_SECONDS cfg)))
                         (book_shift cfg env sd (r + 1))
                     else ret False"
  have retry_av: "avoids ?E (?retry msg)" for msg
    by (intro avoids_if avoids_seq avoids_log avoids_ret avoids_exc_sleep d rec_av)
  have retry_ad: "adds book_attempts ?N (?retry msg)" if "\<not> is_book_attempt (INFO, msg)" for msg
    by (intro adds_if adds_seq_keeps rec_ad adds_keeps[OF keeps_ret] keeps_seq keeps_log keeps_sleep)
       (simp_all add: book_attempts_logI that)
  let ?X = "catch_exc (book_click env sd)
             (\<lambda>e. seq (log WARNING (''Could not find book button: '' @ e)) (?retry ''Retrying...''))
             (\<lambda>_. seq (book_confirm env) (book_verify env ?t ?d))"
  have X_av: "avoids ?E ?X"
    by (intro avoids_catch_exc avoids_seq avoids_log retry_av avoids_exc_book_confirm
          avoids_exc_book_verify) simp
  have X_ad: "adds book_attempts ?N ?X"
    by (intro adds_catch_keeps adds_seq_keeps retry_ad keeps_attempts_book_click keeps_log
          adds_keeps[OF keeps_seq] keeps_attempts_book_confirm keeps_attempts_book_verify)
       (simp_all add: book_attempts_logI is_book_attempt_def)
  let ?H = "\<lambda>e. seq (log ERROR (''Failed to book shift: '' @ e))
              (?retry (''Retrying... Attempt '' @ show_int (r + 1) @ ''/'' @
                                     show_int (MAX_RETRY_ATTEMPTS cfg)))"
  have H_av: "avoids ?E (?H e)" for e
    by (intro avoids_seq avoids_log retry_av)
  have H_ad: "adds book_attempts ?N (?H e)" for e
    by (intro adds_seq_keeps retry_ad keeps_log)
       (simp_all add: book_attempts_logI is_book_attempt_def)
  have eq: "book_shift cfg env sd r = try_exc (seq (book_start env ?t ?d) ?X) ?H"
    by (subst book_shift_unfold) simp
  have av: "avoids ?E (book_shift cfg env sd r)"
    unfolding eq by (intro avoids_try_exc H_av) simp
  have ad: "adds book_attempts (1 + ?N) (book_shift cfg env sd r)"
    unfolding eq
    by (rule try_exc_split[OF seq_split[OF book_start_attempts X_av X_ad] H_ad])
  show ?case using av ad by blast
qed

lemma book_shift_bounded_neg:
  assumes d: "RETRY_DELAY_SECONDS cfg < 0"
  shows "adds book_attempts 1 (book_shift cfg env sd r)"
proof -
  let ?t = "get_or_unknown sd ''title''" and ?d = "get_or_unknown sd ''date''"
  have st: "adds book_attempts 1 (book_start env ?t ?d)"
    by (simp add: adds_def book_start_attempts)
  have "adds book_attempts 1
     (try_exc
       (seq (book_start env ?t ?d)
          (catch_exc (book_click env sd)
             (\<lambda>e. seq (log WARNING (''Could not find book button: '' @ e))
                    (if r < MAX_RETRY_ATTEMPTS cfg then
                       seq (log INFO ''Retrying...'') (raise (Exception ''ValueError''))
                     else ret False))
             (\<lambda>_. seq (book_confirm env) (book_verify env ?t ?d))))
       (\<lambda>e. seq (log ERROR (''Failed to book shift: '' @ e))
              (if r < MAX_RETRY_ATTEMPTS cfg then
                 seq (log INFO (''Retrying... Attempt '' @ show_int (r + 1) @ ''/'' @
                                     show_int (MAX_RETRY_ATTEMPTS cfg)))
                   (raise (Exception ''ValueError''))
               else ret False)))"
    by (intro adds_try_keeps adds_keeps_seq[OF st] keeps_catch_exc keeps_seq keeps_if keeps_log
          keeps_raise keeps_ret
          keeps_attempts_book_click keeps_attempts_book_confirm keeps_attempts_book_verify)
       (simp_all add: book_attempts_logI is_book_attempt_def)
  then show ?thesis
    by (subst book_shift_unfold) (simp only: retry_negative[OF d])
qed

lemma adds_book_shift:
  "adds book_attempts (1 + nat (MAX_RETRY_ATTEMPTS cfg - r)) (book_shift cfg env sd r)"
proof (cases "0 \<le> RETRY_DELAY_SECONDS cfg")
  case True
  then show ?thesis using book_shift_bounded_nonneg by blast
next
  case False
  have "adds book_attempts 1 (book_shift cfg env sd r)"
    by (rule book_shift_bounded_neg) (use False in simp)
  then show ?thesis by (rule adds_mono) simp
qed

subsection \<open>The last attempt and the attempts before it\<close>

lemma login_gives_up:
  assumes "\<not> r < MAX_RETRY_ATTEMPTS cfg" "login_pre env s = (Inr u, s1)"
    "login_email env s1 = (Inl (Exception e), s2)"
  shows "login cfg env r s =
     (Inl (Exception e),
      logI ERROR (''Login failed: '' @ e) (logI ERROR (''Failed to find email field: '' @ e) s2))"
  using assms by (subst login.simps) (simp add: Let_def)

lemma login_retries:
  assumes "r < MAX_RETRY_ATTEMPTS cfg" "login_pre env s = (Inr u, s1)"
    "login_email env s1 = (Inl (Exception e), s2)"
    "sleep env (RETRY_DELAY_SECONDS cfg)
       (logI INFO (''Retrying login... Attempt '' @ show_int (r + 1))
          (logI ERROR (''Failed to find email field: '' @ e) s2)) = (Inr (), s3)"
    "with_driver (drv_refresh env) s3 = (Inr (), s4)"
  shows "login cfg env r s =
     try_exc (login cfg env (r + 1))
       (\<lambda>e. seq (log ERROR (''Login failed: '' @ e)) (raise (Exception e))) s4"
  using assms
  by (subst login.simps)
     (simp add: Let_def seq_def bind_def log_def try_exc_def raise_def
        split: prod.splits sum.splits exn.splits)

lemma book_shift_gives_up_click:
  assumes "\<not> r < MAX_RETRY_ATTEMPTS cfg"
    "book_start env (get_or_unknown sd ''title'') (get_or_unknown sd ''date'') s = (Inr u, s1)"
    "book_click env sd s1 = (Inl (Exception e), s2)"
  shows "book_shift cfg env sd r s =
     (Inr False, logI WARNING (''Could not find book button: '' @ e) s2)"
  using assms by (subst book_shift.simps) (simp add: Let_def)

lemma book_shift_gives_up_raise:
  assumes "\<not> r < MAX_RETRY_ATTEMPTS cfg"
    "book_start env (get_or_unknown sd ''title'') (get_or_unknown sd ''date'') s =
       (Inl (Exception e), s1)"
  shows "book_shift cfg env sd r s = (Inr False, logI ERROR (''Failed to book shift: '' @ e) s1)"
  using assms by (subst book_shift.simps) (simp add: Let_def)

lemma book_shift_last_no_exception:
  assumes "\<not> r < MAX_RETRY_ATTEMPTS cfg"
  shows "avoids (\<lambda>e. e \<noteq> KeyboardInterrupt) (book_shift cfg env sd r)"
  by (subst book_shift_unfold)
     (intro avoids_try_exc avoids_seq avoids_log avoids_if avoids_ret; simp add: assms)

lemma book_shift_retries:
  assumes "r < MAX_RETRY_ATTEMPTS cfg"
    "book_start env (get_or_unknown sd ''title'') (get_or_unknown sd ''date'') s = (Inr u, s1)"
    "book_click env sd s1 = (Inl (Exception e), s2)"
    "sleep env (RETRY_DELAY_SECONDS cfg)
       (logI INFO ''Retrying...'' (logI WARNING (''Could not find book button: '' @ e) s2)) =
       (Inr (), s3)"
  shows "book_shift cfg env sd r s = book_shift cfg env sd (r + 1) s3"
proof -
  have d: "0 \<le> RETRY_DELAY_SECONDS cfg"
    using assms(4) by (auto simp: sleep_def split: if_splits)
  have "\<And>e'. fst (book_shift cfg env sd (r + 1) s3) \<noteq> Inl (Exception e')"
    using avoidsD[OF conjunct1[OF book_shift_bounded_nonneg[OF d]]] by (metis exn.distinct(1))
  then have pass: "(case book_shift cfg env sd (r + 1) s3 of
        (Inl (Exception e), s') \<Rightarrow> h e s'
      | (Inl KeyboardInterrupt, s') \<Rightarrow> (Inl KeyboardInterrupt, s')
      | (Inr b, s') \<Rightarrow> (Inr b, s')) = book_shift cfg env sd (r + 1) s3" for h
    by (cases "book_shift cfg env sd (r + 1) s3") (auto split: sum.splits exn.splits)
  show ?thesis
    using assms
    by (subst book_shift.simps) (simp add: Let_def seq_def bind_def log_def pass)
qed

lemmas login_defs = login_pre_def login_open_def login_button_def login_iframe_def login_email_def
  login_post_def login_password_def login_submit_def login_finish_def

lemmas book_defs = book_start_def book_click_def book_confirm_def book_verify_def
  success_indicators_def append_booking_def get_or_unknown_def str_val_def

lemmas world_defs = env_ok_def env_down_def env_no_email_def env_no_button_def env_no_script_def
  cfg0_def st0_def init_def rec_ok_def xpath_options_def selectors_def pay_xpath_def

lemma w1: "login_attempts (snd (login cfg0 env_no_email 0 st0)) = 3"
  by (simp add: login.simps login_defs act_defs world_defs Let_def login_attempts_def is_login_start_def)

lemma w2: "fst (login cfg0 env_no_email 2 st0) = Inl (Exception ''timeout'')"
  by (simp add: login.simps login_defs act_defs world_defs Let_def)

lemma w3: "book_attempts (snd (book_shift cfg0 env_no_button (rec_ok 0 10) 0 st0)) = 3"
  by (simp add: book_shift.simps book_defs act_defs world_defs Let_def book_attempts_def is_book_attempt_def)

lemma w4: "fst (book_shift cfg0 env_no_script (rec_ok 0 10) 2 st0) = Inr False"
  by (simp add: book_shift.simps book_defs act_defs world_defs Let_def)

lemma w5: "fst (book_shift cfg0 env_ok (rec_ok 0 10) 0 st0) = Inr True"
  by (simp add: book_shift.simps book_defs act_defs world_defs Let_def)

lemma show_int_1: "show_int 1 = ''1''"
  by code_simp

lemma show_int_2: "show_int 2 = ''2''"
  by code_simp

lemma book_shift_retries_raise:
  assumes "r < MAX_RETRY_ATTEMPTS cfg"
    "book_start env (get_or_unknown sd ''title'') (get_or_unknown sd ''date'') s =
       (Inl (Exception e), s1)"
    "sleep env (RETRY_DELAY_SECONDS cfg)
       (logI INFO (''Retrying... Attempt '' @ show_int (r + 1) @ ''/'' @
                   show_int (MAX_RETRY_ATTEMPTS cfg))
          (logI ERROR (''Failed to book shift: '' @ e) s1)) = (Inr (), s3)"
  shows "book_shift cfg env sd r s = book_shift cfg env sd (r + 1) s3"
  using assms
  by (subst book_shift.simps) (simp add: Let_def seq_def bind_def log_def)

text \<open>
  C3. The retries of \<open>login\<close> and of \<open>book_shift\<close> are bounded. Counting the calls by
  the log line that opens each of them, a call with retry count \<open>r\<close> leads to at most
  \<open>1 + (MAX_RETRY_ATTEMPTS - r)\<close> calls in all (one when the bound is reached), so the
  recursion ends. When the email field is not found, \<open>login\<close> below the bound sleeps
  \<open>RETRY_DELAY_SECONDS\<close>, refreshes and calls itself with \<open>r + 1\<close>, and at the bound it
  raises the exception. When the button is not found or the start of the booking raises,
  \<open>book_shift\<close> below the bound sleeps and calls itself with \<open>r + 1\<close>, and at the bound
  it returns \<open>False\<close> and raises no exception.
\<close>

theorem retries_bounded:
  "login_attempts (snd (login cfg env r s)) \<le>
     login_attempts s + 1 + nat (MAX_RETRY_ATTEMPTS cfg - r) \<and>
   book_attempts (snd (book_shift cfg env sd r s)) \<le>
     book_attempts s + 1 + nat (MAX_RETRY_ATTEMPTS cfg - r) \<and>
   (login_pre env s = (Inr u, s1) \<and> login_email env s1 = (Inl (Exception e), s2) \<longrightarrow>
      (if r < MAX_RETRY_ATTEMPTS cfg then
         (sleep env (RETRY_DELAY_SECONDS cfg)
            (logI INFO (''Retrying login... Attempt '' @ show_int (r + 1))
               (logI ERROR (''Failed to find email field: '' @ e) s2)) = (Inr (), s3) \<and>
          with_driver (drv_refresh env) s3 = (Inr (), s4) \<longrightarrow>
          login cfg env r s =
            try_exc (login cfg env (r + 1))
              (\<lambda>e. seq (log ERROR (''Login failed: '' @ e)) (raise (Exception e))) s4)
       else fst (login cfg env r s) = Inl (Exception e))) \<and>
   (book_start env (get_or_unknown sd ''title'') (get_or_unknown sd ''date'') s = (Inr u, s1) \<and>
    book_click env sd s1 = (Inl (Exception e), s2) \<longrightarrow>
      (if r < MAX_RETRY_ATTEMPTS cfg then
         (sleep env (RETRY_DELAY_SECONDS cfg)
            (logI INFO ''Retrying...''
               (logI WARNING (''Could not find book button: '' @ e) s2)) = (Inr (), s3) \<longrightarrow>
          book_shift cfg env sd r s = book_shift cfg env sd (r + 1) s3)
       else book_shift cfg env sd r s =
              (Inr False, logI WARNING (''Could not find book button: '' @ e) s2))) \<and>
   (book_start env (get_or_unknown sd ''title'') (get_or_unknown sd ''date'') s =
      (Inl (Exception e), s1) \<longrightarrow>
      (if r < MAX_RETRY_ATTEMPTS cfg then
         (sleep env (RETRY_DELAY_SECONDS cfg)
            (logI INFO (''Retrying... Attempt '' @ show_int (r + 1) @ ''/'' @
                        show_int (MAX_RETRY_ATTEMPTS cfg))
               (logI ERROR (''Failed to book shift: '' @ e) s1)) = (Inr (), s3) \<longrightarrow>
          book_shift cfg env sd r s = book_shift cfg env sd (r + 1) s3)
       else book_shift cfg env sd r s =
              (Inr False, logI ERROR (''Failed to book shift: '' @ e) s1))) \<and>
   (\<not> r < MAX_RETRY_ATTEMPTS cfg \<longrightarrow>
      (\<forall>e'. fst (book_shift cfg env sd r s) \<noteq> Inl (Exception e')))"
proof -
  have a: "login_attempts (snd (login cfg env r s)) \<le>
     login_attempts s + 1 + nat (MAX_RETRY_ATTEMPTS cfg - r)"
    using adds_login[of cfg r env] by (simp add: adds_def)
  have b: "book_attempts (snd (book_shift cfg env sd r s)) \<le>
     book_attempts s + 1 + nat (MAX_RETRY_ATTEMPTS cfg - r)"
    using adds_book_shift[of cfg r env sd] by (simp add: adds_def)
  have c: "\<forall>e'. fst (book_shift cfg env sd r s) \<noteq> Inl (Exception e')"
    if "\<not> r < MAX_RETRY_ATTEMPTS cfg"
    using avoidsD[OF book_shift_last_no_exception[OF that]] by (metis exn.distinct(1))
  show ?thesis
    using a b c login_gives_up[of r cfg env s u s1 e s2]
      login_retries[of r cfg env s u s1 e s2 s3 s4]
      book_shift_gives_up_click[of r cfg env sd s u s1 e s2]
      book_shift_retries[of r cfg env sd s u s1 e s2 s3]
      book_shift_gives_up_raise[of r cfg env sd s e s1]
      book_shift_retries_raise[of r cfg env sd s e s1 s3]
    by simp
qed

theorem retries_bounded_witness:
  "login_attempts (snd (login cfg0 env_no_email 0 st0)) = 3 \<and>
   login_attempts (snd (login cfg0 env_no_email 0 st0)) \<le>
     login_attempts st0 + 1 + nat (MAX_RETRY_ATTEMPTS cfg0 - 0) \<and>
   book_attempts (snd (book_shift cfg0 env_no_button (rec_ok 0 10) 0 st0)) = 3 \<and>
   book_attempts (snd (book_shift cfg0 env_no_button (rec_ok 0 10) 0 st0)) \<le>
     book_attempts st0 + 1 + nat (MAX_RETRY_ATTEMPTS cfg0 - 0) \<and>
   fst (login_pre env_no_email st0) = Inr () \<and>
   fst (login_email env_no_email (snd (login_pre env_no_email st0))) = Inl (Exception ''timeout'') \<and>
   fst (login cfg0 env_no_email 2 st0) = Inl (Exception ''timeout'') \<and>
   login cfg0 env_no_email 0 st0 =
     try_exc (login cfg0 env_no_email 1)
       (\<lambda>e. seq (log ERROR (''Login failed: '' @ e)) (raise (Exception e)))
       (logI INFO ''Retrying login... Attempt 1''
          (logI ERROR ''Failed to find email field: timeout'' (snd (login_pre env_no_email st0)))) \<and>
   fst (book_shift cfg0 env_no_button (rec_ok 0 10) 2 st0) = Inr False \<and>
   book_shift cfg0 env_no_button (rec_ok 0 10) 0 st0 =
     book_shift cfg0 env_no_button (rec_ok 0 10) 1
       (logI INFO ''Retrying...''
          (logI WARNING ''Could not find book button: no such element''
             (snd (book_start env_no_button (VStr ''HCA'') (VStr ''HCA'') st0)))) \<and>
   fst (book_shift cfg0 env_no_script (rec_ok 0 10) 2 st0) = Inr False \<and>
   book_shift cfg0 env_no_script (rec_ok 0 10) 0 st0 =
     book_shift cfg0 env_no_script (rec_ok 0 10) 1
       (logI INFO ''Retrying... Attempt 1/2''
          (logI ERROR ''Failed to book shift: javascript error''
             (snd (book_start env_no_script (VStr ''HCA'') (VStr ''HCA'') st0)))) \<and>
   (\<forall>e'. fst (book_shift cfg0 env_ok (rec_ok 0 10) 2 st0) \<noteq> Inl (Exception e'))"
proof -
  let ?sp = "snd (login_pre env_no_email st0)"
  let ?sb = "snd (book_start env_no_button (VStr ''HCA'') (VStr ''HCA'') st0)"
  let ?sj = "snd (book_start env_no_script (VStr ''HCA'') (VStr ''HCA'') st0)"
  have n1: "login_attempts (snd (login cfg0 env_no_email 0 st0)) = 3"
    by (simp add: login.simps login_defs act_defs world_defs Let_def login_attempts_def
        is_login_start_def)
  have n2: "book_attempts (snd (book_shift cfg0 env_no_button (rec_ok 0 10) 0 st0)) = 3"
    by (simp add: book_shift.simps book_defs act_defs world_defs Let_def book_attempts_def
        is_book_attempt_def)
  have m: "MAX_RETRY_ATTEMPTS cfg0 = 2" "RETRY_DELAY_SECONDS cfg0 = 5"
    by (simp_all add: cfg0_def)
  have g: "get_or_unknown (rec_ok 0 10) ''title'' = VStr ''HCA''"
    "get_or_unknown (rec_ok 0 10) ''date'' = VStr ''HCA''"
    by (simp_all add: get_or_unknown_def rec_ok_def)
  have p: "login_pre env_no_email st0 = (Inr (), ?sp)"
    by (simp add: prod_eq_iff login_defs act_defs world_defs)
  have q: "login_email env_no_email ?sp = (Inl (Exception ''timeout''), ?sp)"
    by (simp add: prod_eq_iff login_defs act_defs world_defs)
  have sl: "sleep env_no_email (RETRY_DELAY_SECONDS cfg0)
      (logI INFO (''Retrying login... Attempt '' @ show_int (0 + 1))
         (logI ERROR (''Failed to find email field: '' @ ''timeout'') ?sp)) =
      (Inr (), logI INFO ''Retrying login... Attempt 1''
          (logI ERROR ''Failed to find email field: timeout'' ?sp))"
    by (simp add: login_defs act_defs world_defs show_int_1)
  have rf: "with_driver (drv_refresh env_no_email)
      (logI INFO ''Retrying login... Attempt 1''
          (logI ERROR ''Failed to find email field: timeout'' ?sp)) =
      (Inr (), logI INFO ''Retrying login... Attempt 1''
          (logI ERROR ''Failed to find email field: timeout'' ?sp))"
    by (simp add: login_defs act_defs world_defs)
  have bs: "book_start env_no_button (VStr ''HCA'') (VStr ''HCA'') st0 = (Inr (), ?sb)"
    by (simp add: prod_eq_iff book_defs act_defs world_defs)
  have bc: "book_click env_no_button (rec_ok 0 10) ?sb = (Inl (Exception ''no such element''), ?sb)"
    by (simp add: prod_eq_iff book_defs act_defs world_defs)
  have bl: "sleep env_no_button (RETRY_DELAY_SECONDS cfg0)
      (logI INFO ''Retrying...''
         (logI WARNING (''Could not find book button: '' @ ''no such element'') ?sb)) =
      (Inr (), logI INFO ''Retrying...''
          (logI WARNING ''Could not find book button: no such element'' ?sb))"
    by (simp add: book_defs act_defs world_defs)
  have js: "book_start env_no_script (VStr ''HCA'') (VStr ''HCA'') st0 =
      (Inl (Exception ''javascript error''), ?sj)"
    by (simp add: prod_eq_iff book_defs act_defs world_defs)
  have jl: "sleep env_no_script (RETRY_DELAY_SECONDS cfg0)
      (logI INFO (''Retrying... Attempt '' @ show_int (0 + 1) @ ''/'' @
                  show_int (MAX_RETRY_ATTEMPTS cfg0))
         (logI ERROR (''Failed to book shift: '' @ ''javascript error'') ?sj)) =
      (Inr (), logI INFO ''Retrying... Attempt 1/2''
          (logI ERROR ''Failed to book shift: javascript error'' ?sj))"
    by (simp add: book_defs act_defs world_defs show_int_1 show_int_2)
  note t_login_last = retries_bounded[of cfg0 env_no_email 2 st0 _ "()" ?sp "''timeout''" ?sp]
  note t_login_first = retries_bounded[of cfg0 env_no_email 0 st0 _ "()" ?sp "''timeout''" ?sp
      "logI INFO ''Retrying login... Attempt 1''
          (logI ERROR ''Failed to find email field: timeout'' ?sp)"
      "logI INFO ''Retrying login... Attempt 1''
          (logI ERROR ''Failed to find email field: timeout'' ?sp)"]
  note t_click_last = retries_bounded[of cfg0 env_no_button 2 st0 "rec_ok 0 10" "()" ?sb
      "''no such element''" ?sb]
  note t_click_first = retries_bounded[of cfg0 env_no_button 0 st0 "rec_ok 0 10" "()" ?sb
      "''no such element''" ?sb
      "logI INFO ''Retrying...''
          (logI WARNING ''Could not find book button: no such element'' ?sb)"]
  note t_raise_last = retries_bounded[of cfg0 env_no_script 2 st0 "rec_ok 0 10" _ ?sj
      "''javascript error''"]
  note t_raise_first = retries_bounded[of cfg0 env_no_script 0 st0 "rec_ok 0 10" _ ?sj
      "''javascript error''" _
      "logI INFO ''Retrying... Attempt 1/2''
          (logI ERROR ''Failed to book shift: javascript error'' ?sj)"]
  note t_ok = retries_bounded[of cfg0 env_ok 2 st0 "rec_ok 0 10"]
  have c1: "fst (login cfg0 env_no_email 2 st0) = Inl (Exception ''timeout'')"
    using t_login_last p q m by simp
  have c2: "login cfg0 env_no_email 0 st0 =
     try_exc (login cfg0 env_no_email 1)
       (\<lambda>e. seq (log ERROR (''Login failed: '' @ e)) (raise (Exception e)))
       (logI INFO ''Retrying login... Attempt 1''
          (logI ERROR ''Failed to find email field: timeout'' ?sp))"
    using t_login_first p q sl rf m by simp
  have c3: "fst (book_shift cfg0 env_no_button (rec_ok 0 10) 2 st0) = Inr False"
    using t_click_last bs bc m g by simp
  have c4: "book_shift cfg0 env_no_button (rec_ok 0 10) 0 st0 =
     book_shift cfg0 env_no_button (rec_ok 0 10) 1
       (logI INFO ''Retrying...''
          (logI WARNING ''Could not find book button: no such element'' ?sb))"
    using t_click_first bs bc bl m g by simp
  have c5: "fst (book_shift cfg0 env_no_script (rec_ok 0 10) 2 st0) = Inr False"
    using t_raise_last js m g by simp
  have c6: "book_shift cfg0 env_no_script (rec_ok 0 10) 0 st0 =
     book_shift cfg0 env_no_script (rec_ok 0 10) 1
       (logI INFO ''Retrying... Attempt 1/2''
          (logI ERROR ''Failed to book shift: javascript error'' ?sj))"
    using t_raise_first js jl m g by simp
  have c7: "\<forall>e'. fst (book_shift cfg0 env_ok (rec_ok 0 10) 2 st0) \<noteq> Inl (Exception e')"
    using t_ok m by simp
  have c8: "login_attempts (snd (login cfg0 env_no_email 0 st0)) \<le>
     login_attempts st0 + 1 + nat (MAX_RETRY_ATTEMPTS cfg0 - 0)"
    using t_login_first by blast
  have c9: "book_attempts (snd (book_shift cfg0 env_no_button (rec_ok 0 10) 0 st0)) \<le>
     book_attempts st0 + 1 + nat (MAX_RETRY_ATTEMPTS cfg0 - 0)"
    using t_click_first by blast
  have p1: "fst (login_pre env_no_email st0) = Inr ()"
    using p by (metis fst_conv)
  have q1: "fst (login_email env_no_email ?sp) = Inl (Exception ''timeout'')"
    using q by (metis fst_conv)
  show ?thesis
    by (intro conjI n1 c8 n2 c9 p1 q1 c1 c2 c3 c4 c5 c6 c7)
qed

section \<open>The records of the scan, state by state\<close>

lemma set_field_exact:
  "set_field env shift key xpath info s =
     (Inr (info(key \<mapsto> VStr (field_text env shift xpath s))), field_state env shift xpath s)"
  by (simp add: set_field_def field_text_def field_state_def try_bare_def bind_def ret_def
      split: prod.splits sum.splits)

lemma parse_shift_exact:
  "parse_shift env idx shift s = (Inr (expected_record env idx shift s), after_fields env shift s)"
  by (simp add: parse_shift_def bind_def set_field_exact expected_record_def after_fields_def Let_def)

lemma scan_shifts_exact:
  "fst (scan_shifts env idx els acc s) = Inr (acc @ expected_records env idx els s)"
proof (induction els arbitrary: idx acc s)
  case Nil
  show ?case by simp
next
  case (Cons shift rest)
  let ?r = "expected_record env idx shift s"
  let ?s' = "logI DEBUG (''Shift '' @ show_int idx @ '': '' @
                    str_val (get_or_unknown ?r ''title'') @ '' - '' @
                    str_val (get_or_unknown ?r ''date''))
          (after_fields env shift s)"
  have "scan_shifts env idx (shift # rest) acc s = scan_shifts env (idx + 1) rest (acc @ [?r]) ?s'"
    by (simp add: parse_shift_exact)
  then show ?case
    using Cons[of "idx + 1" "acc @ [?r]" ?s'] by simp
qed

lemma get_available_shifts_exact:
  assumes "select_elements env selectors [] s = (Inr els, s1)"
  shows "fst (get_available_shifts env s) =
     Inr (expected_records env 0 els
            (logI INFO (''Found '' @ show_nat (length els) @ '' shift elements'') s1))"
proof -
  let ?s2 = "logI INFO (''Found '' @ show_nat (length els) @ '' shift elements'') s1"
  obtain r s3 where sc: "scan_shifts env 0 els [] ?s2 = (r, s3)"
    by (cases "scan_shifts env 0 els [] ?s2")
  have "r = Inr (expected_records env 0 els ?s2)"
    using scan_shifts_exact[of env 0 els "[]" ?s2] sc by simp
  then show ?thesis
    using assms sc
    by (simp add: get_available_shifts_def try_exc_def bind_def seq_def log_def ret_def)
qed

lemma field_text_cases:
  "(lift (el_find_element env shift xpath) s = (Inl e, s') \<longrightarrow>
      field_text env shift xpath s = ''Unknown'') \<and>
   (lift (el_find_element env shift xpath) s = (Inr el, s') \<and>
    lift (el_text env el) s' = (Inl e, s'') \<longrightarrow>
      field_text env shift xpath s = ''Unknown'') \<and>
   (lift (el_find_element env shift xpath) s = (Inr el, s') \<and>
    lift (el_text env el) s' = (Inr t, s'') \<longrightarrow>
      field_text env shift xpath s = t)"
  by (simp add: field_text_def bind_def)

lemma expected_record_dom:
  "dom (expected_record env idx shift s) =
     {''index'', ''element'', ''title'', ''location'', ''date'', ''time'', ''pay''}"
  by (auto simp: expected_record_def Let_def split: if_splits)

section \<open>Every candidate before the first success has failed\<close>

lemma click_first_step:
  "click_first env (x # rest) s =
     (case click_attempt env x s of
        (Inr u, s') \<Rightarrow> (Inr True, logI INFO ''Found and clicked shifts link'' s')
      | (Inl e, s') \<Rightarrow> click_first env rest s')"
  by (simp add: click_attempt_def split: prod.splits sum.splits)

lemma click_first_append:
  "click_first env pre s = (Inr False, s1) \<Longrightarrow>
   click_first env (pre @ ys) s = click_first env ys s1"
proof (induction pre arbitrary: s)
  case Nil
  then show ?case by simp
next
  case (Cons x pre)
  obtain r s' where a: "click_attempt env x s = (r, s')" by (cases "click_attempt env x s")
  show ?case
  proof (cases r)
    case (Inl e)
    then have "click_first env pre s' = (Inr False, s1)"
      using Cons.prems a by (simp add: click_first_step del: click_first.simps(2))
    then have "click_first env (pre @ ys) s' = click_first env ys s1" by (rule Cons.IH)
    then show ?thesis using a Inl by (simp add: click_first_step del: click_first.simps(2))
  next
    case (Inr u)
    then show ?thesis using Cons.prems a by (simp add: click_first_step del: click_first.simps(2))
  qed
qed

lemma click_first_False_split:
  "click_first env (pre @ ys) s = (Inr False, s') \<Longrightarrow>
   \<exists>s1. click_first env pre s = (Inr False, s1) \<and> click_first env ys s1 = (Inr False, s')"
proof (induction pre arbitrary: s)
  case Nil
  then show ?case by simp
next
  case (Cons x pre)
  obtain r s0 where a: "click_attempt env x s = (r, s0)" by (cases "click_attempt env x s")
  show ?case
  proof (cases r)
    case (Inl e)
    then have "click_first env (pre @ ys) s0 = (Inr False, s')"
      using Cons.prems a by (simp add: click_first_step del: click_first.simps(2))
    from Cons.IH[OF this] obtain s1 where
      "click_first env pre s0 = (Inr False, s1)" "click_first env ys s1 = (Inr False, s')"
      by blast
    then show ?thesis using a Inl by (simp add: click_first_step del: click_first.simps(2))
  next
    case (Inr u)
    then show ?thesis using Cons.prems a by (simp add: click_first_step del: click_first.simps(2))
  qed
qed

lemma click_first_False_all:
  assumes "click_first env xs s = (Inr False, s')" "xs = pre @ x # post"
  shows "\<exists>s1 e s2. click_first env pre s = (Inr False, s1) \<and>
           click_attempt env x s1 = (Inl e, s2)"
proof -
  obtain s1 where a: "click_first env pre s = (Inr False, s1)"
    and b: "click_first env (x # post) s1 = (Inr False, s')"
    using click_first_False_split[of env pre "x # post" s s'] assms by auto
  obtain r s2 where c: "click_attempt env x s1 = (r, s2)" by (cases "click_attempt env x s1")
  have "\<exists>e. r = Inl e" using b c by (cases r) (simp_all add: click_first_step del: click_first.simps(2))
  then show ?thesis using a c by blast
qed

lemma click_first_fail_next:
  assumes "click_first env pre s = (Inr False, s1)" "click_attempt env x s1 = (Inl e, s2)"
  shows "click_first env (pre @ [x]) s = (Inr False, s2)"
  using click_first_append[OF assms(1), of "[x]"] assms(2) by (simp add: click_first_step del: click_first.simps(2))

lemma click_first_success_next:
  assumes "click_first env pre s = (Inr False, s1)" "click_attempt env x s1 = (Inr u, s2)"
  shows "click_first env (pre @ x # post) s =
           (Inr True, logI INFO ''Found and clicked shifts link'' s2)"
  using click_first_append[OF assms(1), of "x # post"] assms(2) by (simp add: click_first_step del: click_first.simps(2))

lemma select_elements_step:
  "select_elements env (x # rest) cur s =
     (case find_attempt env x s of
        (Inr found, s') \<Rightarrow>
          (if found \<noteq> [] then (Inr found, s') else select_elements env rest found s')
      | (Inl e, s') \<Rightarrow> select_elements env rest cur s')"
  by (simp add: find_attempt_def)

lemma select_elements_append:
  "select_elements env pre [] s = (Inr [], s1) \<Longrightarrow>
   select_elements env (pre @ ys) [] s = select_elements env ys [] s1"
proof (induction pre arbitrary: s)
  case Nil
  then show ?case by simp
next
  case (Cons x pre)
  obtain r s' where a: "find_attempt env x s = (r, s')" by (cases "find_attempt env x s")
  show ?case
  proof (cases r)
    case (Inl e)
    then have "select_elements env pre [] s' = (Inr [], s1)"
      using Cons.prems a by (simp add: select_elements_step del: select_elements.simps(2))
    then have "select_elements env (pre @ ys) [] s' = select_elements env ys [] s1"
      by (rule Cons.IH)
    then show ?thesis using a Inl by (simp add: select_elements_step del: select_elements.simps(2))
  next
    case (Inr found)
    show ?thesis
    proof (cases "found = []")
      case True
      then have "select_elements env pre [] s' = (Inr [], s1)"
        using Cons.prems a Inr by (simp add: select_elements_step del: select_elements.simps(2))
      then have "select_elements env (pre @ ys) [] s' = select_elements env ys [] s1"
        by (rule Cons.IH)
      then show ?thesis using a Inr True by (simp add: select_elements_step del: select_elements.simps(2))
    next
      case False
      then show ?thesis using Cons.prems a Inr by (simp add: select_elements_step del: select_elements.simps(2))
    qed
  qed
qed

lemma select_elements_empty_split:
  "select_elements env (pre @ ys) [] s = (Inr [], s') \<Longrightarrow>
   \<exists>s1. select_elements env pre [] s = (Inr [], s1) \<and>
        select_elements env ys [] s1 = (Inr [], s')"
proof (induction pre arbitrary: s)
  case Nil
  then show ?case by simp
next
  case (Cons x pre)
  obtain r s0 where a: "find_attempt env x s = (r, s0)" by (cases "find_attempt env x s")
  have step: ?case if "select_elements env (pre @ ys) [] s0 = (Inr [], s')"
    and "select_elements env (x # pre) [] s = select_elements env pre [] s0"
  proof -
    from Cons.IH[OF that(1)] obtain s1 where
      "select_elements env pre [] s0 = (Inr [], s1)" "select_elements env ys [] s1 = (Inr [], s')"
      by blast
    then show ?thesis using that(2) by auto
  qed
  show ?case
  proof (cases r)
    case (Inl e)
    then show ?thesis using Cons.prems a step by (simp add: select_elements_step del: select_elements.simps(2))
  next
    case (Inr found)
    show ?thesis
    proof (cases "found = []")
      case True
      then show ?thesis using Cons.prems a Inr step by (simp add: select_elements_step del: select_elements.simps(2))
    next
      case False
      then show ?thesis using Cons.prems a Inr by (simp add: select_elements_step del: select_elements.simps(2))
    qed
  qed
qed

lemma select_elements_empty_all:
  assumes "select_elements env sels [] s = (Inr [], s')" "sels = pre @ x # post"
  shows "\<exists>s1 s2. select_elements env pre [] s = (Inr [], s1) \<and>
           (find_attempt env x s1 = (Inr [], s2) \<or> (\<exists>e. find_attempt env x s1 = (Inl e, s2)))"
proof -
  obtain s1 where a: "select_elements env pre [] s = (Inr [], s1)"
    and b: "select_elements env (x # post) [] s1 = (Inr [], s')"
    using select_elements_empty_split[of env pre "x # post" s s'] assms by auto
  obtain r s2 where c: "find_attempt env x s1 = (r, s2)" by (cases "find_attempt env x s1")
  have "r = Inr [] \<or> (\<exists>e. r = Inl e)"
    using b c by (cases r) (auto simp: select_elements_step simp del: select_elements.simps(2) split: if_splits)
  then show ?thesis using a c by blast
qed

lemma select_elements_empty_next:
  assumes "select_elements env pre [] s = (Inr [], s1)"
    "find_attempt env x s1 = (Inr [], s2) \<or> find_attempt env x s1 = (Inl e, s2)"
  shows "select_elements env (pre @ [x]) [] s = (Inr [], s2)"
  using select_elements_append[OF assms(1), of "[x]"] assms(2)
  by (auto simp: select_elements_step simp del: select_elements.simps(2))

lemma select_elements_match_next:
  assumes "select_elements env pre [] s = (Inr [], s1)"
    "find_attempt env x s1 = (Inr els, s2)" "els \<noteq> []"
  shows "select_elements env (pre @ x # post) [] s = (Inr els, s2)"
  using select_elements_append[OF assms(1), of "x # post"] assms(2,3)
  by (simp add: select_elements_step del: select_elements.simps(2))

section \<open>The two handlers of \<open>get_available_shifts\<close>\<close>

lemma scan_shifts_scan_with: "scan_shifts env idx els shifts s = scan_with (parse_shift env) idx els shifts s"
  by (induction els arbitrary: idx shifts s) (simp_all split: prod.splits sum.splits exn.splits)

lemma get_available_guarded:
  "get_available_shifts env =
     guard_scan
       (bind (select_elements env selectors [])
          (\<lambda>shift_elements.
             seq (log INFO (''Found '' @ show_nat (length shift_elements) @ '' shift elements''))
               (bind (scan_with (parse_shift env) 0 shift_elements [])
                  (\<lambda>shifts.
                     seq (log INFO (''Found '' @ show_nat (length shifts) @ '' available shifts''))
                       (ret shifts)))))"
proof -
  have "scan_shifts env 0 els [] = scan_with (parse_shift env) 0 els []" for els
    by (rule ext) (rule scan_shifts_scan_with)
  then show ?thesis by (simp add: get_available_shifts_def guard_scan_def)
qed

lemma scan_with_skip:
  "p idx shift s = (Inl (Exception e), s1) \<Longrightarrow>
   scan_with p idx (shift # rest) shifts s =
     scan_with p (idx + 1) rest shifts
       (logI DEBUG (''Could not parse shift '' @ show_int idx @ '': '' @ e) s1)"
  by simp

lemma scan_with_no_exception: "fst (scan_with p idx els shifts s) \<noteq> Inl (Exception e)"
proof (induction els arbitrary: idx shifts s)
  case Nil
  show ?case by simp
next
  case (Cons shift rest)
  show ?case
    using Cons by (cases "p idx shift s") (auto split: sum.splits exn.splits)
qed

lemma guard_scan_handles:
  "m s = (Inl (Exception e), s1) \<Longrightarrow>
   guard_scan m s = (Inr [], logI ERROR (''Failed to get available shifts: '' @ e) s1)"
  by (simp add: guard_scan_def try_exc_def seq_def bind_def log_def ret_def)

lemma guard_scan_no_exception: "fst (guard_scan m s) \<noteq> Inl (Exception e)"
  by (cases "m s")
     (auto simp: guard_scan_def try_exc_def seq_def bind_def log_def ret_def
        split: sum.splits exn.splits)

text \<open>
  C6. Each of the five display fields of a record is the text that its own lookup found,
  made in the state the scan had reached, and \<open>'Unknown'\<close> whenever that lookup or the
  reading of its text raised. For one guarded lookup this is \<open>set_field\<close> with
  \<open>field_text\<close>, whose three cases are spelled out; for one element it is
  \<open>expected_record\<close>, which has the index, the element and the five fields; and
  \<open>get_available_shifts\<close> returns exactly the records \<open>expected_records\<close> of the
  elements that the loop over the selectors chose, from the state that loop left.
\<close>

theorem shift_fields_default_unknown:
  "set_field env shift key xpath info s =
     (Inr (info(key \<mapsto> VStr (field_text env shift xpath s))), field_state env shift xpath s) \<and>
   (lift (el_find_element env shift xpath) s = (Inl e, s') \<longrightarrow>
      field_text env shift xpath s = ''Unknown'') \<and>
   (lift (el_find_element env shift xpath) s = (Inr el, s') \<and>
    lift (el_text env el) s' = (Inl e, s'') \<longrightarrow>
      field_text env shift xpath s = ''Unknown'') \<and>
   (lift (el_find_element env shift xpath) s = (Inr el, s') \<and>
    lift (el_text env el) s' = (Inr t, s'') \<longrightarrow>
      field_text env shift xpath s = t) \<and>
   parse_shift env idx shift s =
     (Inr (expected_record env idx shift s), after_fields env shift s) \<and>
   dom (expected_record env idx shift s) =
     {''index'', ''element'', ''title'', ''location'', ''date'', ''time'', ''pay''} \<and>
   (select_elements env selectors [] s = (Inr els, s1) \<longrightarrow>
      fst (get_available_shifts env s) =
        Inr (expected_records env 0 els
               (logI INFO (''Found '' @ show_nat (length els) @ '' shift elements'') s1)))"
  using set_field_exact[of env shift key xpath info s]
    field_text_cases[of env shift xpath s e s' el s'' t]
    parse_shift_exact[of env idx shift s] expected_record_dom[of env idx shift s]
    get_available_shifts_exact[of env s els s1]
  by blast

theorem shift_fields_default_unknown_witness:
  "lift (el_find_element env_ok 10 pay_xpath) st0 = (Inl (Exception ''no such element''), st0) \<and>
   field_text env_ok 10 pay_xpath st0 = ''Unknown'' \<and>
   lift (el_find_element env_no_text 10 title_xpath) st0 = (Inr 20, st0) \<and>
   lift (el_text env_no_text 20) st0 = (Inl (Exception ''stale''), st0) \<and>
   field_text env_no_text 10 title_xpath st0 = ''Unknown'' \<and>
   lift (el_find_element env_ok 10 title_xpath) st0 = (Inr 20, st0) \<and>
   lift (el_text env_ok 20) st0 = (Inr ''HCA'', st0) \<and>
   field_text env_ok 10 title_xpath st0 = ''HCA'' \<and>
   select_elements env_ok selectors [] st0 = (Inr [10, 11], st0) \<and>
   fst (get_available_shifts env_ok st0) =
     Inr (expected_records env_ok 0 [10, 11]
            (logI INFO (''Found '' @ show_nat (length [10, 11 :: elem]) @ '' shift elements'') st0)) \<and>
   expected_records env_ok 0 [10, 11]
     (logI INFO (''Found '' @ show_nat (length [10, 11 :: elem]) @ '' shift elements'') st0) =
     [rec_ok 0 10, rec_ok 1 11]"
proof -
  have a1: "lift (el_find_element env_ok 10 pay_xpath) st0 = (Inl (Exception ''no such element''), st0)"
    by (simp add: act_defs world_defs)
  have b1: "lift (el_find_element env_no_text 10 title_xpath) st0 = (Inr 20, st0)"
    by (simp add: act_defs world_defs env_no_text_def title_xpath_def)
  have b2: "lift (el_text env_no_text 20) st0 = (Inl (Exception ''stale''), st0)"
    by (simp add: act_defs world_defs env_no_text_def)
  have c1: "lift (el_find_element env_ok 10 title_xpath) st0 = (Inr 20, st0)"
    by (simp add: act_defs world_defs title_xpath_def)
  have c2: "lift (el_text env_ok 20) st0 = (Inr ''HCA'', st0)"
    by (simp add: act_defs world_defs)
  have d: "select_elements env_ok selectors [] st0 = (Inr [10, 11], st0)"
    by (simp add: act_defs world_defs)
  have ev: "expected_records env_ok 0 [10, 11]
      (logI INFO (''Found '' @ show_nat (length [10, 11 :: elem]) @ '' shift elements'') st0) =
      [rec_ok 0 10, rec_ok 1 11]"
    by (simp add: expected_record_def after_fields_def field_state_def field_text_def Let_def
        act_defs world_defs title_xpath_def location_xpath_def date_xpath_def time_xpath_def)
  have a2: "field_text env_ok 10 pay_xpath st0 = ''Unknown''"
    using shift_fields_default_unknown[of env_ok 10 _ pay_xpath _ st0 "Exception ''no such element''" st0]
      a1 by blast
  have b3: "field_text env_no_text 10 title_xpath st0 = ''Unknown''"
    using shift_fields_default_unknown[of env_no_text 10 _ title_xpath _ st0 "Exception ''stale''" st0 20 st0]
      b1 b2 by blast
  have c3: "field_text env_ok 10 title_xpath st0 = ''HCA''"
    using shift_fields_default_unknown[of env_ok 10 _ title_xpath _ st0 _ st0 20 st0 "''HCA''"]
      c1 c2 by blast
  have g: "fst (get_available_shifts env_ok st0) =
     Inr (expected_records env_ok 0 [10, 11]
            (logI INFO (''Found '' @ show_nat (length [10, 11 :: elem]) @ '' shift elements'') st0))"
    using shift_fields_default_unknown[where env=env_ok and s=st0 and els="[10, 11]" and ?s1.0=st0]
      d by blast
  show ?thesis
    by (intro conjI a1 a2 b1 b2 b3 c1 c2 c3 d g ev)
qed

text \<open>
  C9. \<open>get_available_shifts\<close> never ends with an exception: it returns a list. The loop
  over the shift elements is \<open>scan_with\<close> with \<open>parse_shift\<close> as the builder of the
  record, and whatever the builder is, an element on which it raises is logged and
  skipped, the scan goes on with the records it has, and the scan never ends with an
  exception. The whole body stands under \<open>guard_scan\<close>, and whatever the body is, when
  it raises the function logs the error and returns the empty list.
\<close>

theorem get_available_shifts_returns:
  "(\<exists>shifts. fst (get_available_shifts env s) = Inr shifts) \<and>
   scan_shifts env idx els shifts s = scan_with (parse_shift env) idx els shifts s \<and>
   get_available_shifts env =
     guard_scan
       (bind (select_elements env selectors [])
          (\<lambda>shift_elements.
             seq (log INFO (''Found '' @ show_nat (length shift_elements) @ '' shift elements''))
               (bind (scan_with (parse_shift env) 0 shift_elements [])
                  (\<lambda>shifts.
                     seq (log INFO (''Found '' @ show_nat (length shifts) @ '' available shifts''))
                       (ret shifts))))) \<and>
   (p idx shift s = (Inl (Exception e), s1) \<longrightarrow>
      scan_with p idx (shift # rest) shifts s =
        scan_with p (idx + 1) rest shifts
          (logI DEBUG (''Could not parse shift '' @ show_int idx @ '': '' @ e) s1)) \<and>
   (\<forall>e'. fst (scan_with p idx els shifts s) \<noteq> Inl (Exception e')) \<and>
   (m s = (Inl (Exception e), s1) \<longrightarrow>
      guard_scan m s = (Inr [], logI ERROR (''Failed to get available shifts: '' @ e) s1)) \<and>
   (\<forall>e'. fst (guard_scan m s) \<noteq> Inl (Exception e'))"
proof -
  have a: "\<exists>shifts. fst (get_available_shifts env s) = Inr shifts"
  proof (cases "fst (get_available_shifts env s)")
    case (Inl e)
    then show ?thesis
      using avoidsD[OF avoids_get_available_shifts[of "\<lambda>_. True" env]] by blast
  next
    case (Inr shifts)
    then show ?thesis by blast
  qed
  show ?thesis
    using a scan_shifts_scan_with[of env idx els shifts s] get_available_guarded[of env]
      scan_with_skip[of p idx shift s e s1 rest shifts]
      scan_with_no_exception[of p idx els shifts s]
      guard_scan_handles[of m s e s1] guard_scan_no_exception[of m s]
    by blast
qed

theorem get_available_shifts_returns_witness:
  "stale_first 0 10 st0 = (Inl (Exception ''stale''), st0) \<and>
   scan_with stale_first 0 (10 # [11]) [] st0 =
     scan_with stale_first (0 + 1) [11] []
       (logI DEBUG (''Could not parse shift '' @ show_int 0 @ '': '' @ ''stale'') st0) \<and>
   fst (scan_with stale_first 0 [10, 11] [] st0) = Inr [rec_ok 1 11] \<and>
   raise (Exception ''boom'') st0 = (Inl (Exception ''boom''), st0) \<and>
   guard_scan (raise (Exception ''boom'')) st0 =
     (Inr [], logI ERROR (''Failed to get available shifts: '' @ ''boom'') st0)"
proof -
  have a: "stale_first 0 10 st0 = (Inl (Exception ''stale''), st0)"
    by (simp add: stale_first_def raise_def)
  have b: "raise (Exception ''boom'') st0 = (Inl (Exception ''boom''), st0)"
    by (simp add: raise_def)
  have c: "fst (scan_with stale_first 0 [10, 11] [] st0) = Inr [rec_ok 1 11]"
    by (simp add: stale_first_def raise_def parse_shift_def set_field_def act_defs world_defs
        title_xpath_def location_xpath_def date_xpath_def time_xpath_def)
  have d: "scan_with stale_first 0 (10 # [11]) [] st0 =
     scan_with stale_first (0 + 1) [11] []
       (logI DEBUG (''Could not parse shift '' @ show_int 0 @ '': '' @ ''stale'') st0)"
    using get_available_shifts_returns[where p=stale_first and idx=0 and shift=10 and s=st0
        and e="''stale''" and ?s1.0=st0 and rest="[11]" and shifts="[]"] a
    by blast
  have e: "guard_scan (raise (Exception ''boom'')) st0 =
     (Inr [], logI ERROR (''Failed to get available shifts: '' @ ''boom'') st0)"
    using get_available_shifts_returns[where m="raise (Exception ''boom'')" and s=st0
        and e="''boom''" and ?s1.0=st0] b
    by blast
  show ?thesis by (intro conjI a d c b e)
qed

lemma click_first_total: "\<exists>found s'. click_first env xs s = (Inr found, s')"
proof (induction xs arbitrary: s)
  case Nil
  show ?case by auto
next
  case (Cons x xs)
  obtain r s1 where a: "click_attempt env x s = (r, s1)" by (cases "click_attempt env x s")
  show ?case using a Cons[of s1]
    by (cases r) (auto simp: click_first_step simp del: click_first.simps(2))
qed

lemma select_elements_total: "\<exists>els s'. select_elements env sels cur s = (Inr els, s')"
proof (induction sels arbitrary: cur s)
  case Nil
  show ?case by auto
next
  case (Cons x xs)
  obtain r s1 where a: "find_attempt env x s = (r, s1)" by (cases "find_attempt env x s")
  show ?case using a Cons[of _ s1]
    by (cases r) (auto simp: select_elements_step simp del: select_elements.simps(2))
qed

text \<open>
  C7. The candidates are tried in the order of their list and the first success ends the
  search; the fallback is reached only when every candidate failed. One try of a link
  candidate is \<open>click_attempt\<close> (wait until clickable, then click), one try of a
  selector is \<open>find_attempt\<close>.

  The loop over the link candidates always ends with \<open>True\<close> or \<open>False\<close>. It is
  \<open>False\<close> on no candidates; when it is \<open>False\<close> on a prefix and the next candidate
  fails, it is \<open>False\<close> on the longer prefix; when it is \<open>False\<close> on a prefix and the
  next candidate succeeds, it is \<open>True\<close> on the whole list, in the state that this
  success left, whatever comes after. Conversely \<open>True\<close> means that some candidate
  succeeded after all the earlier ones failed, and \<open>False\<close> means that each candidate
  of the list failed, tried in the state that the ones before it left.
  \<open>navigate_to_shifts\<close> makes no use of \<open>driver.get\<close> when the loop is \<open>True\<close>, and
  opens the direct address when it is \<open>False\<close>.

  The loop over the selectors always ends with a list, and the same five facts hold of
  it, with the empty list for \<open>False\<close>: a selector fails when \<open>find_elements\<close> gives
  nothing or raises. The records of \<open>get_available_shifts\<close> are built from exactly the
  elements that this loop chose, in their order.
\<close>

theorem first_candidate_wins:
  "(\<exists>found sf. click_first env xs s = (Inr found, sf)) \<and>
   click_first env [] s = (Inr False, s) \<and>
   (click_first env pre s = (Inr False, s1) \<and> click_attempt env x s1 = (Inl e, s2) \<longrightarrow>
      click_first env (pre @ [x]) s = (Inr False, s2)) \<and>
   (click_first env pre s = (Inr False, s1) \<and> click_attempt env x s1 = (Inr u, s2) \<longrightarrow>
      click_first env (pre @ x # post) s =
        (Inr True, logI INFO ''Found and clicked shifts link'' s2)) \<and>
   (click_first env xs s = (Inr True, s'') \<longrightarrow>
      (\<exists>pre x post s1 l s2 s3. xs = pre @ x # post \<and>
         click_first env pre s = (Inr False, s1) \<and>
         with_wait (\<lambda>d. until_clickable env d x) s1 = (Inr l, s2) \<and>
         lift (el_click env l) s2 = (Inr (), s3) \<and>
         s'' = logI INFO ''Found and clicked shifts link'' s3)) \<and>
   (click_first env xs s = (Inr False, s') \<and> xs = pre @ x # post \<longrightarrow>
      (\<exists>s1 e s2. click_first env pre s = (Inr False, s1) \<and>
         click_attempt env x s1 = (Inl e, s2))) \<and>
   (fst (click_first env xpath_options (logI INFO ''Navigating to available shifts...'' s)) = Inr True \<longrightarrow>
      navigate_to_shifts (env\<lparr>drv_get := g\<rparr>) s = navigate_to_shifts env s) \<and>
   (click_first env xpath_options (logI INFO ''Navigating to available shifts...'' s) = (Inr False, s2) \<longrightarrow>
      navigate_to_shifts env s =
        try_exc
          (seq (with_driver (\<lambda>d. drv_get env d ''https://www.nhsprofessionals.nhs.uk/search-shifts''))
             (seq (sleep env 3) (log INFO ''Navigated to shifts section'')))
          (\<lambda>e. seq (log ERROR (''Navigation to shifts failed: '' @ e)) (raise (Exception e)))
          (logI WARNING ''Could not find shifts link, trying direct URL'' s2)) \<and>
   (\<exists>found sf. select_elements env sels [] s = (Inr found, sf)) \<and>
   select_elements env [] [] s = (Inr [], s) \<and>
   (select_elements env pre [] s = (Inr [], s1) \<and>
    (find_attempt env x s1 = (Inr [], s2) \<or> find_attempt env x s1 = (Inl e, s2)) \<longrightarrow>
      select_elements env (pre @ [x]) [] s = (Inr [], s2)) \<and>
   (select_elements env pre [] s = (Inr [], s1) \<and>
    find_attempt env x s1 = (Inr els, s2) \<and> els \<noteq> [] \<longrightarrow>
      select_elements env (pre @ x # post) [] s = (Inr els, s2)) \<and>
   (select_elements env sels [] s = (Inr els, s') \<and> els \<noteq> [] \<longrightarrow>
      (\<exists>pre x post s1. sels = pre @ x # post \<and>
         select_elements env pre [] s = (Inr [], s1) \<and>
         with_driver (\<lambda>d. drv_find_elements env d XPATH x) s1 = (Inr els, s'))) \<and>
   (select_elements env sels [] s = (Inr [], s') \<and> sels = pre @ x # post \<longrightarrow>
      (\<exists>s1 s2. select_elements env pre [] s = (Inr [], s1) \<and>
         (find_attempt env x s1 = (Inr [], s2) \<or> (\<exists>e. find_attempt env x s1 = (Inl e, s2))))) \<and>
   (\<exists>found s1 shifts. select_elements env selectors [] s = (Inr found, s1) \<and>
      fst (get_available_shifts env s) = Inr shifts \<and>
      map (\<lambda>r. r ''element'') shifts = map (\<lambda>e. Some (VElem e)) found)"
proof -
  have c1: "\<exists>found sf. click_first env xs s = (Inr found, sf)"
    by (rule click_first_total)
  have c2: "click_first env [] s = (Inr False, s)" by simp
  have c3: "click_first env pre s = (Inr False, s1) \<and> click_attempt env x s1 = (Inl e, s2) \<longrightarrow>
      click_first env (pre @ [x]) s = (Inr False, s2)"
    using click_first_fail_next[of env pre s s1 x e s2] by blast
  have c4: "click_first env pre s = (Inr False, s1) \<and> click_attempt env x s1 = (Inr u, s2) \<longrightarrow>
      click_first env (pre @ x # post) s =
        (Inr True, logI INFO ''Found and clicked shifts link'' s2)"
    using click_first_success_next[of env pre s s1 x u s2 post] by blast
  have c5: "click_first env xs s = (Inr True, s'') \<longrightarrow>
      (\<exists>pre x post s1 l s2 s3. xs = pre @ x # post \<and>
         click_first env pre s = (Inr False, s1) \<and>
         with_wait (\<lambda>d. until_clickable env d x) s1 = (Inr l, s2) \<and>
         lift (el_click env l) s2 = (Inr (), s3) \<and>
         s'' = logI INFO ''Found and clicked shifts link'' s3)"
    using click_first_True[of env xs s s''] by blast
  have c6: "click_first env xs s = (Inr False, s') \<and> xs = pre @ x # post \<longrightarrow>
      (\<exists>s1 e s2. click_first env pre s = (Inr False, s1) \<and>
         click_attempt env x s1 = (Inl e, s2))"
    using click_first_False_all[of env xs s s' pre x post] by blast
  have c7: "fst (click_first env xpath_options (logI INFO ''Navigating to available shifts...'' s)) = Inr True \<longrightarrow>
      navigate_to_shifts (env\<lparr>drv_get := g\<rparr>) s = navigate_to_shifts env s"
    using navigate_found[of env s g] by blast
  have c8: "click_first env xpath_options (logI INFO ''Navigating to available shifts...'' s) = (Inr False, s2) \<longrightarrow>
      navigate_to_shifts env s =
        try_exc
          (seq (with_driver (\<lambda>d. drv_get env d ''https://www.nhsprofessionals.nhs.uk/search-shifts''))
             (seq (sleep env 3) (log INFO ''Navigated to shifts section'')))
          (\<lambda>e. seq (log ERROR (''Navigation to shifts failed: '' @ e)) (raise (Exception e)))
          (logI WARNING ''Could not find shifts link, trying direct URL'' s2)"
    using navigate_fallback[of env s s2] by blast
  have d1: "\<exists>found sf. select_elements env sels [] s = (Inr found, sf)"
    by (rule select_elements_total)
  have d2: "select_elements env [] [] s = (Inr [], s)" by simp
  have d3: "select_elements env pre [] s = (Inr [], s1) \<and>
    (find_attempt env x s1 = (Inr [], s2) \<or> find_attempt env x s1 = (Inl e, s2)) \<longrightarrow>
      select_elements env (pre @ [x]) [] s = (Inr [], s2)"
    using select_elements_empty_next[of env pre s s1 x s2 e] by blast
  have d4: "select_elements env pre [] s = (Inr [], s1) \<and>
    find_attempt env x s1 = (Inr els, s2) \<and> els \<noteq> [] \<longrightarrow>
      select_elements env (pre @ x # post) [] s = (Inr els, s2)"
    using select_elements_match_next[of env pre s s1 x els s2 post] by blast
  have d5: "select_elements env sels [] s = (Inr els, s') \<and> els \<noteq> [] \<longrightarrow>
      (\<exists>pre x post s1. sels = pre @ x # post \<and>
         select_elements env pre [] s = (Inr [], s1) \<and>
         with_driver (\<lambda>d. drv_find_elements env d XPATH x) s1 = (Inr els, s'))"
    using select_elements_Nil_acc[of env sels s els s'] by blast
  have d6: "select_elements env sels [] s = (Inr [], s') \<and> sels = pre @ x # post \<longrightarrow>
      (\<exists>s1 s2. select_elements env pre [] s = (Inr [], s1) \<and>
         (find_attempt env x s1 = (Inr [], s2) \<or> (\<exists>e. find_attempt env x s1 = (Inl e, s2))))"
    using select_elements_empty_all[of env sels s s' pre x post] by blast
  have d7: "\<exists>found s1 shifts. select_elements env selectors [] s = (Inr found, s1) \<and>
      fst (get_available_shifts env s) = Inr shifts \<and>
      map (\<lambda>r. r ''element'') shifts = map (\<lambda>e. Some (VElem e)) found"
    using get_available_elements[of env s] by blast
  show ?thesis
    by (intro conjI c1 c2 c3 c4 c5 c6 c7 c8 d1 d2 d3 d4 d5 d6 d7)
qed

theorem first_candidate_wins_witness:
  "click_first env_third [xpath_options ! 0] st0 = (Inr False, st0) \<and>
   click_attempt env_third (xpath_options ! 1) st0 = (Inl (Exception ''timeout''), st0) \<and>
   click_first env_third ([xpath_options ! 0] @ [xpath_options ! 1]) st0 = (Inr False, st0) \<and>
   click_attempt env_third (xpath_options ! 2) st0 = (Inr (), st0) \<and>
   click_first env_third xpath_options st0 =
     (Inr True, logI INFO ''Found and clicked shifts link'' st0) \<and>
   (\<exists>pre x post s1 l s2 s3. xpath_options = pre @ x # post \<and>
      click_first env_third pre st0 = (Inr False, s1) \<and>
      with_wait (\<lambda>d. until_clickable env_third d x) s1 = (Inr l, s2) \<and>
      lift (el_click env_third l) s2 = (Inr (), s3) \<and>
      logI INFO ''Found and clicked shifts link'' st0 =
        logI INFO ''Found and clicked shifts link'' s3) \<and>
   click_first env_down xpath_options st0 = (Inr False, st0) \<and>
   (\<exists>s1 e s2. click_first env_down (take 2 xpath_options) st0 = (Inr False, s1) \<and>
      click_attempt env_down (xpath_options ! 2) s1 = (Inl e, s2)) \<and>
   navigate_to_shifts (env_ok\<lparr>drv_get := (\<lambda>d u w. (Inl KeyboardInterrupt, w))\<rparr>) st0 =
     navigate_to_shifts env_ok st0 \<and>
   click_first env_down xpath_options (logI INFO ''Navigating to available shifts...'' st0) =
     (Inr False, logI INFO ''Navigating to available shifts...'' st0) \<and>
   fst (navigate_to_shifts env_down st0) = Inl (Exception ''down'') \<and>
   select_elements env_third [selectors ! 0] [] st0 = (Inr [], st0) \<and>
   find_attempt env_third (selectors ! 1) st0 = (Inr [], st0) \<and>
   select_elements env_third ([selectors ! 0] @ [selectors ! 1]) [] st0 = (Inr [], st0) \<and>
   find_attempt env_down (selectors ! 0) st0 = (Inl (Exception ''down''), st0) \<and>
   select_elements env_down ([] @ [selectors ! 0]) [] st0 = (Inr [], st0) \<and>
   find_attempt env_third (selectors ! 2) st0 = (Inr [10, 11], st0) \<and>
   select_elements env_third selectors [] st0 = (Inr [10, 11], st0) \<and>
   (\<exists>pre x post s1. selectors = pre @ x # post \<and>
      select_elements env_third pre [] st0 = (Inr [], s1) \<and>
      with_driver (\<lambda>d. drv_find_elements env_third d XPATH x) s1 = (Inr [10, 11], st0)) \<and>
   select_elements env_down selectors [] st0 = (Inr [], st0) \<and>
   (\<exists>s1 s2. select_elements env_down (take 2 selectors) [] st0 = (Inr [], s1) \<and>
      (find_attempt env_down (selectors ! 2) s1 = (Inr [], s2) \<or>
       (\<exists>e. find_attempt env_down (selectors ! 2) s1 = (Inl e, s2))))"
proof -
  have xo: "xpath_options = take 2 xpath_options @ xpath_options ! 2 # drop 3 xpath_options"
    by (simp add: xpath_options_def)
  have xo2: "take 2 xpath_options = [xpath_options ! 0] @ [xpath_options ! 1]"
    by (simp add: xpath_options_def)
  have so: "selectors = take 2 selectors @ selectors ! 2 # []"
    by (simp add: selectors_def)
  have so2: "take 2 selectors = [selectors ! 0] @ [selectors ! 1]"
    by (simp add: selectors_def)
  have a1: "click_first env_third [xpath_options ! 0] st0 = (Inr False, st0)"
    by (simp add: env_third_def act_defs world_defs)
  have a2: "click_attempt env_third (xpath_options ! 1) st0 = (Inl (Exception ''timeout''), st0)"
    by (simp add: click_attempt_def env_third_def act_defs world_defs)
  have a3: "click_first env_third ([xpath_options ! 0] @ [xpath_options ! 1]) st0 = (Inr False, st0)"
    using first_candidate_wins[where env=env_third and pre="[xpath_options ! 0]" and s=st0
        and ?s1.0=st0 and x="xpath_options ! 1" and e="Exception ''timeout''" and ?s2.0=st0]
      a1 a2 by blast
  have a4: "click_attempt env_third (xpath_options ! 2) st0 = (Inr (), st0)"
    by (simp add: click_attempt_def env_third_def act_defs world_defs)
  have "click_first env_third (take 2 xpath_options @ xpath_options ! 2 # drop 3 xpath_options) st0 =
      (Inr True, logI INFO ''Found and clicked shifts link'' st0)"
    using first_candidate_wins[where env=env_third and pre="take 2 xpath_options" and s=st0
        and ?s1.0=st0 and x="xpath_options ! 2" and u="()" and ?s2.0=st0
        and post="drop 3 xpath_options"]
      a3 a4 xo2 by metis
  then have a5: "click_first env_third xpath_options st0 =
      (Inr True, logI INFO ''Found and clicked shifts link'' st0)"
    using xo by metis
  have a6: "\<exists>pre x post s1 l s2 s3. xpath_options = pre @ x # post \<and>
      click_first env_third pre st0 = (Inr False, s1) \<and>
      with_wait (\<lambda>d. until_clickable env_third d x) s1 = (Inr l, s2) \<and>
      lift (el_click env_third l) s2 = (Inr (), s3) \<and>
      logI INFO ''Found and clicked shifts link'' st0 =
        logI INFO ''Found and clicked shifts link'' s3"
    using first_candidate_wins[where env=env_third and xs=xpath_options and s=st0
        and s''="logI INFO ''Found and clicked shifts link'' st0"]
      a5 by blast
  have b1: "click_first env_down xpath_options st0 = (Inr False, st0)"
    by (simp add: act_defs world_defs)
  have b2: "\<exists>s1 e s2. click_first env_down (take 2 xpath_options) st0 = (Inr False, s1) \<and>
      click_attempt env_down (xpath_options ! 2) s1 = (Inl e, s2)"
    using first_candidate_wins[where env=env_down and xs=xpath_options and s=st0 and s'=st0
        and pre="take 2 xpath_options" and x="xpath_options ! 2" and post="drop 3 xpath_options"]
      b1 xo by blast
  have c0: "fst (click_first env_ok xpath_options (logI INFO ''Navigating to available shifts...'' st0)) = Inr True"
    by (simp add: act_defs world_defs)
  have c1: "navigate_to_shifts (env_ok\<lparr>drv_get := (\<lambda>d u w. (Inl KeyboardInterrupt, w))\<rparr>) st0 =
      navigate_to_shifts env_ok st0"
    using first_candidate_wins[where env=env_ok and s=st0
        and g="\<lambda>d u w. (Inl KeyboardInterrupt, w)"] c0 by blast
  have c2: "click_first env_down xpath_options (logI INFO ''Navigating to available shifts...'' st0) =
      (Inr False, logI INFO ''Navigating to available shifts...'' st0)"
    by (simp add: act_defs world_defs)
  have "navigate_to_shifts env_down st0 =
        try_exc
          (seq (with_driver (\<lambda>d. drv_get env_down d ''https://www.nhsprofessionals.nhs.uk/search-shifts''))
             (seq (sleep env_down 3) (log INFO ''Navigated to shifts section'')))
          (\<lambda>e. seq (log ERROR (''Navigation to shifts failed: '' @ e)) (raise (Exception e)))
          (logI WARNING ''Could not find shifts link, trying direct URL''
             (logI INFO ''Navigating to available shifts...'' st0))"
    using first_candidate_wins[where env=env_down and s=st0
        and ?s2.0="logI INFO ''Navigating to available shifts...'' st0"] c2 by blast
  then have c3: "fst (navigate_to_shifts env_down st0) = Inl (Exception ''down'')"
    by (simp add: act_defs world_defs)
  have d1: "select_elements env_third [selectors ! 0] [] st0 = (Inr [], st0)"
    by (simp add: env_third_def act_defs world_defs)
  have d2: "find_attempt env_third (selectors ! 1) st0 = (Inr [], st0)"
    by (simp add: find_attempt_def env_third_def act_defs world_defs)
  have d3: "select_elements env_third ([selectors ! 0] @ [selectors ! 1]) [] st0 = (Inr [], st0)"
    using first_candidate_wins[where env=env_third and pre="[selectors ! 0]" and s=st0
        and ?s1.0=st0 and x="selectors ! 1" and ?s2.0=st0]
      d1 d2 by blast
  have e0: "select_elements env_down [] [] st0 = (Inr [], st0)" by simp
  have e1: "find_attempt env_down (selectors ! 0) st0 = (Inl (Exception ''down''), st0)"
    by (simp add: find_attempt_def act_defs world_defs)
  have e2: "select_elements env_down ([] @ [selectors ! 0]) [] st0 = (Inr [], st0)"
    using first_candidate_wins[where env=env_down and pre="[]" and s=st0
        and ?s1.0=st0 and x="selectors ! 0" and ?s2.0=st0 and e="Exception ''down''"]
      e0 e1 by blast
  have d4: "find_attempt env_third (selectors ! 2) st0 = (Inr [10, 11], st0)"
    by (simp add: find_attempt_def env_third_def act_defs world_defs)
  have ne: "[10, 11] \<noteq> ([] :: elem list)" by simp
  have "select_elements env_third (take 2 selectors @ selectors ! 2 # []) [] st0 = (Inr [10, 11], st0)"
    using first_candidate_wins[where env=env_third and pre="take 2 selectors" and s=st0
        and ?s1.0=st0 and x="selectors ! 2" and els="[10, 11]" and ?s2.0=st0 and post="[]"]
      d3 d4 ne so2 by metis
  then have d5: "select_elements env_third selectors [] st0 = (Inr [10, 11], st0)"
    using so by metis
  have d6: "\<exists>pre x post s1. selectors = pre @ x # post \<and>
      select_elements env_third pre [] st0 = (Inr [], s1) \<and>
      with_driver (\<lambda>d. drv_find_elements env_third d XPATH x) s1 = (Inr [10, 11], st0)"
    using first_candidate_wins[where env=env_third and sels=selectors and s=st0
        and els="[10, 11]" and s'=st0]
      d5 ne by blast
  have f1: "select_elements env_down selectors [] st0 = (Inr [], st0)"
    by (simp add: act_defs world_defs)
  have f2: "\<exists>s1 s2. select_elements env_down (take 2 selectors) [] st0 = (Inr [], s1) \<and>
      (find_attempt env_down (selectors ! 2) s1 = (Inr [], s2) \<or>
       (\<exists>e. find_attempt env_down (selectors ! 2) s1 = (Inl e, s2)))"
    using first_candidate_wins[where env=env_down and sels=selectors and s=st0 and s'=st0
        and pre="take 2 selectors" and x="selectors ! 2" and post="[]"]
      f1 so by blast
  show ?thesis
    by (intro conjI a1 a2 a3 a4 a5 a6 b1 b2 c1 c2 c3 d1 d2 d3 e1 e2 d4 d5 d6 f1 f2)
qed

section \<open>A world without interrupts\<close>




































lemmas cycle_defs = cycle_def cycle_body_def navigate_to_shifts_def search_shifts_def
  fill_field_def get_available_shifts_def parse_shift_def set_field_def booking_statistics_def
  iteration_def cycle_header_def wait_notice_def str_opt_def truthy_def banner_def
  setup_driver_def close_def session_def restart_delay_def stop_handler_def finally_do_def

lemmas more_worlds = env_quiet_def env_int_def cfg_neg_def

section \<open>The loop that never ends by itself\<close>








section \<open>Exceptions that leave the cycle and the loop\<close>











section \<open>The restart after a crash\<close>

lemma restart_after_crash:
  assumes "session n cfg env s = Some (Inl (Exception e), s2)"
  shows "run_continuous_booking (Suc n) cfg env s =
       (case sleep env 10 (logI ERROR ''Attempting to restart...''
                            (logI ERROR (''Fatal error: '' @ e) s2)) of
          (Inl e', s3) \<Rightarrow> Some (finally_do (close env) (Inl e', s3))
        | (Inr _, s3) \<Rightarrow> map_option (finally_do (close env)) (run_continuous_booking n cfg env s3))"
  using assms
  by (simp add: restart_delay_def seq_def bind_def log_def map_option_case
      split: prod.splits sum.splits option.splits)

text \<open>
  C5. When an exception other than \<open>KeyboardInterrupt\<close> leaves the body of the outer
  \<open>try\<close> (the driver setup, the login or the loop), \<open>run_continuous_booking\<close> logs
  the fatal error and the restart, sleeps ten seconds and, when that sleep has returned,
  calls itself on the same object; what the call gives comes back after \<open>close\<close>. The
  call starts from the beginning: the driver setup, the login, the banner, and the loop
  with its counter at zero.
\<close>

theorem crash_restarts:
  "(session n cfg env s = Some (Inl (Exception e), s2) \<longrightarrow>
      run_continuous_booking (Suc n) cfg env s =
        (case sleep env 10 (logI ERROR ''Attempting to restart...''
                             (logI ERROR (''Fatal error: '' @ e) s2)) of
           (Inl e', s3) \<Rightarrow> Some (finally_do (close env) (Inl e', s3))
         | (Inr _, s3) \<Rightarrow>
             map_option (finally_do (close env)) (run_continuous_booking n cfg env s3))) \<and>
   session n cfg env s =
     (case seq (setup_driver cfg env) (seq (login cfg env 0) (banner cfg)) s of
        (Inl e, s1) \<Rightarrow> Some (Inl e, s1)
      | (Inr _, s1) \<Rightarrow> main_loop n cfg env 0 s1)"
  using restart_after_crash[of n cfg env s e s2] by (simp add: session_def)

theorem crash_restarts_witness:
  "\<exists>s2 s3. session (Suc 0) cfg0 env_down st0 = Some (Inl (Exception ''down''), s2) \<and>
      sleep env_down 10 (logI ERROR ''Attempting to restart...''
                           (logI ERROR (''Fatal error: '' @ ''down'') s2)) = (Inr (), s3) \<and>
      run_continuous_booking (Suc (Suc 0)) cfg0 env_down st0 =
        map_option (finally_do (close env_down)) (run_continuous_booking (Suc 0) cfg0 env_down s3)"
proof -
  have "map_option fst (session (Suc 0) cfg0 env_down st0) = Some (Inl (Exception ''down''))"
    by (simp add: cycle_defs act_defs world_defs more_worlds)
  then obtain s2 where a: "session (Suc 0) cfg0 env_down st0 = Some (Inl (Exception ''down''), s2)"
    by (cases "session (Suc 0) cfg0 env_down st0") auto
  let ?s = "logI ERROR ''Attempting to restart...'' (logI ERROR (''Fatal error: '' @ ''down'') s2)"
  have "fst (sleep env_down 10 ?s) = Inr ()"
    by (simp add: sleep_def env_down_def)
  then obtain s3 where b: "sleep env_down 10 ?s = (Inr (), s3)"
    by (cases "sleep env_down 10 ?s") auto
  have r: "run_continuous_booking (Suc (Suc 0)) cfg0 env_down st0 =
        (case sleep env_down 10 ?s of
           (Inl e', s3) \<Rightarrow> Some (finally_do (close env_down) (Inl e', s3))
         | (Inr _, s3) \<Rightarrow>
             map_option (finally_do (close env_down))
               (run_continuous_booking (Suc 0) cfg0 env_down s3))"
    using crash_restarts[where n="Suc 0" and cfg=cfg0 and env=env_down and s=st0
        and e="''down''" and ?s2.0=s2] a by blast
  have "run_continuous_booking (Suc (Suc 0)) cfg0 env_down st0 =
        map_option (finally_do (close env_down)) (run_continuous_booking (Suc 0) cfg0 env_down s3)"
    by (simp only: r b prod.case sum.case)
  then show ?thesis using a b by blast
qed

section \<open>The booking cap\<close>

lemma login_cap: "login (cfg\<lparr>MAX_SHIFTS_TO_BOOK := k\<rparr>) env r = login cfg env r"
proof (induction "nat (MAX_RETRY_ATTEMPTS cfg - r)" arbitrary: r rule: less_induct)
  case less
  have rec: "login (cfg\<lparr>MAX_SHIFTS_TO_BOOK := k\<rparr>) env (r + 1) = login cfg env (r + 1)"
    if "r < MAX_RETRY_ATTEMPTS cfg"
    using that by (intro less) simp
  show ?case
    unfolding login_unfold[of "cfg\<lparr>MAX_SHIFTS_TO_BOOK := k\<rparr>" env r] login_unfold[of cfg env r]
    using rec by (cases "r < MAX_RETRY_ATTEMPTS cfg") simp_all
qed

lemma book_shift_cap:
  "book_shift (cfg\<lparr>MAX_SHIFTS_TO_BOOK := k\<rparr>) env sd r = book_shift cfg env sd r"
proof (induction "nat (MAX_RETRY_ATTEMPTS cfg - r)" arbitrary: r rule: less_induct)
  case less
  have rec: "book_shift (cfg\<lparr>MAX_SHIFTS_TO_BOOK := k\<rparr>) env sd (r + 1) = book_shift cfg env sd (r + 1)"
    if "r < MAX_RETRY_ATTEMPTS cfg"
    using that by (intro less) simp
  show ?case
    unfolding book_shift_unfold[of "cfg\<lparr>MAX_SHIFTS_TO_BOOK := k\<rparr>" env sd r]
      book_shift_unfold[of cfg env sd r]
    using rec by (cases "r < MAX_RETRY_ATTEMPTS cfg") simp_all
qed

lemma book_all_cap:
  "book_all (cfg\<lparr>MAX_SHIFTS_TO_BOOK := k\<rparr>) env shifts = book_all cfg env shifts"
proof (induction shifts)
  case Nil
  show ?case by (rule ext) simp
next
  case (Cons sh rest)
  show ?case unfolding book_all_unfold by (simp add: Cons book_shift_cap)
qed

lemma cycle_body_cap:
  "cycle_body (cfg\<lparr>MAX_SHIFTS_TO_BOOK := k\<rparr>) env = cycle_body cfg env"
  unfolding cycle_body_def book_all_cap by simp

lemma iteration_cap:
  "iteration (cfg\<lparr>MAX_SHIFTS_TO_BOOK := k\<rparr>) env c = iteration cfg env c"
  by (simp add: iteration_def cycle_def cycle_body_cap wait_notice_def)

lemma main_loop_cap:
  "main_loop n (cfg\<lparr>MAX_SHIFTS_TO_BOOK := k\<rparr>) env c s = main_loop n cfg env c s"
  by (induction n arbitrary: c s) (simp_all add: iteration_cap split: prod.splits sum.splits)

lemma session_cap:
  "session n (cfg\<lparr>MAX_SHIFTS_TO_BOOK := k\<rparr>) env s = session n cfg env s"
  by (simp add: session_def setup_driver_def banner_def login_cap main_loop_cap
      split: prod.splits sum.splits)

lemma run_continuous_booking_cap:
  "run_continuous_booking n (cfg\<lparr>MAX_SHIFTS_TO_BOOK := k\<rparr>) env s =
   run_continuous_booking n cfg env s"
  by (induction n arbitrary: s)
     (simp_all add: session_cap split: prod.splits sum.splits option.splits exn.splits)

lemma main_cap: "main n (cfg\<lparr>MAX_SHIFTS_TO_BOOK := k\<rparr>) env w = main n cfg env w"
  by (simp add: main_def run_continuous_booking_cap)

lemma book_all_step:
  "book_all cfg env (shift # rest) s =
     (case book_shift cfg env shift 0 (processing shift s) of
        (Inl e, s1) \<Rightarrow> (Inl e, s1)
      | (Inr ok, s1) \<Rightarrow>
          (case sleep env 2
                  (if ok then logI INFO ''Successfully booked!'' s1
                   else logI WARNING ''Booking failed, will retry next cycle'' s1) of
             (Inl e, s2) \<Rightarrow> (Inl e, s2)
           | (Inr _, s2) \<Rightarrow> book_all cfg env rest s2))"
  by (simp add: processing_def seq_def bind_def log_def split: prod.splits sum.splits)

lemma book_all_append:
  "book_all cfg env (xs @ ys) s =
     (case book_all cfg env xs s of
        (Inl e, s1) \<Rightarrow> (Inl e, s1)
      | (Inr _, s1) \<Rightarrow> book_all cfg env ys s1)"
proof (induction xs arbitrary: s)
  case Nil
  show ?case by simp
next
  case (Cons x xs)
  show ?case
    unfolding append_Cons book_all_step
    by (simp add: Cons split: prod.splits sum.splits)
qed

lemma book_all_every:
  assumes "book_all cfg env shifts s = (Inr (), s')" "shifts = pre @ shift # post"
  shows "\<exists>s1 ok s2. book_all cfg env pre s = (Inr (), s1) \<and>
           book_shift cfg env shift 0 (processing shift s1) = (Inr ok, s2)"
proof -
  have a: "(case book_all cfg env pre s of
        (Inl e, s1) \<Rightarrow> (Inl e, s1)
      | (Inr _, s1) \<Rightarrow> book_all cfg env (shift # post) s1) = (Inr (), s')"
    using assms book_all_append[of cfg env pre "shift # post" s] by simp
  obtain r s1 where p: "book_all cfg env pre s = (r, s1)" by (cases "book_all cfg env pre s")
  have r: "r = Inr ()" using a p by (cases r) simp_all
  then have b: "book_all cfg env (shift # post) s1 = (Inr (), s')" using a p by simp
  obtain q s2 where c: "book_shift cfg env shift 0 (processing shift s1) = (q, s2)"
    by (cases "book_shift cfg env shift 0 (processing shift s1)")
  have "\<exists>ok. q = Inr ok" using b c unfolding book_all_step by (cases q) simp_all
  then show ?thesis using p r c by blast
qed

lemma cycle_body_books:
  assumes "seq (navigate_to_shifts env)
             (search_shifts env (Some (PREFERRED_LOCATION cfg))
                (case PREFERRED_SHIFT_TYPES cfg of [] \<Rightarrow> None | t # _ \<Rightarrow> Some t)) s = (Inr (), s2)"
    and "get_available_shifts env s2 = (Inr shifts, s3)" and "shifts \<noteq> []"
  shows "cycle_body cfg env s =
     seq (book_all cfg env shifts) booking_statistics
       (logI INFO (''Booked '' @ show_nat (length (booked_shifts s3)) @ '' shifts so far'') s3)"
proof -
  let ?srch = "search_shifts env (Some (PREFERRED_LOCATION cfg))
                (case PREFERRED_SHIFT_TYPES cfg of [] \<Rightarrow> None | t # _ \<Rightarrow> Some t)"
  obtain r1 s1 where n: "navigate_to_shifts env s = (r1, s1)"
    by (cases "navigate_to_shifts env s")
  have r1: "r1 = Inr ()"
    using assms(1) n by (cases r1) (simp_all add: seq_def bind_def)
  have se: "?srch s1 = (Inr (), s2)"
    using assms(1) n r1 by (simp add: seq_def bind_def)
  have "cycle_body cfg env s =
      bind (get_available_shifts env)
             (\<lambda>shifts.
                seq (if shifts = [] then
                       log INFO ''No available shifts found. Waiting for next search...''
                     else
                       seq (\<lambda>s. log INFO (''Booked '' @ show_nat (length (booked_shifts s)) @
                                           '' shifts so far'') s)
                         (book_all cfg env shifts))
                  booking_statistics) s2"
    unfolding cycle_body_def
    by (subst seq_def, subst bind_def, simp only: n r1 prod.case sum.case)
       (subst seq_def, subst bind_def, simp only: se prod.case sum.case)
  also have "\<dots> = seq (seq (\<lambda>s. log INFO (''Booked '' @ show_nat (length (booked_shifts s)) @
                                           '' shifts so far'') s)
                         (book_all cfg env shifts)) booking_statistics s3"
    by (subst bind_def) (simp only: assms(2,3) prod.case sum.case if_False)
  also have "\<dots> = seq (book_all cfg env shifts) booking_statistics
       (logI INFO (''Booked '' @ show_nat (length (booked_shifts s3)) @ '' shifts so far'') s3)"
    by (simp add: seq_def bind_def log_def)
  finally show ?thesis .
qed

text \<open>
  C10. \<open>MAX_SHIFTS_TO_BOOK\<close> is never consulted: \<open>run_continuous_booking\<close> and
  \<open>main\<close> do the same whatever its value is. When the search of a cycle has returned
  shifts, the cycle hands all of them to the booking loop, and when that loop has come
  to its end, \<open>book_shift\<close> was called, with retry count zero, on every shift of the
  list, each in the state that the shifts before it left.
\<close>

theorem booking_cap_unused:
  "run_continuous_booking n (cfg\<lparr>MAX_SHIFTS_TO_BOOK := k\<rparr>) env s =
     run_continuous_booking n cfg env s \<and>
   main n (cfg\<lparr>MAX_SHIFTS_TO_BOOK := k\<rparr>) env w = main n cfg env w \<and>
   (seq (navigate_to_shifts env)
      (search_shifts env (Some (PREFERRED_LOCATION cfg))
         (case PREFERRED_SHIFT_TYPES cfg of [] \<Rightarrow> None | t # _ \<Rightarrow> Some t)) s = (Inr (), s2) \<and>
    get_available_shifts env s2 = (Inr shifts, s3) \<and> shifts \<noteq> [] \<longrightarrow>
      cycle_body cfg env s =
        seq (book_all cfg env shifts) booking_statistics
          (logI INFO (''Booked '' @ show_nat (length (booked_shifts s3)) @ '' shifts so far'') s3)) \<and>
   (book_all cfg env shifts s = (Inr (), s') \<and> shifts = pre @ shift # post \<longrightarrow>
      (\<exists>s1 ok s2. book_all cfg env pre s = (Inr (), s1) \<and>
         book_shift cfg env shift 0 (processing shift s1) = (Inr ok, s2)))"
  using run_continuous_booking_cap[where n=n and cfg=cfg and k=k and env=env and s=s]
    main_cap[where n=n and cfg=cfg and k=k and env=env and w=w]
    cycle_body_books[where env=env and cfg=cfg and s=s and ?s2.0=s2 and shifts=shifts and ?s3.0=s3]
    book_all_every[where cfg=cfg and env=env and shifts=shifts and s=s and s'=s' and pre=pre
      and shift=shift and post=post]
  by blast

theorem booking_cap_unused_witness:
  "MAX_SHIFTS_TO_BOOK cfg0 = 1 \<and>
   run_continuous_booking 3 (cfg0\<lparr>MAX_SHIFTS_TO_BOOK := 0\<rparr>) env_ok st0 =
     run_continuous_booking 3 cfg0 env_ok st0 \<and>
   (\<exists>s2 s3. seq (navigate_to_shifts env_ok)
        (search_shifts env_ok (Some (PREFERRED_LOCATION cfg0))
           (case PREFERRED_SHIFT_TYPES cfg0 of [] \<Rightarrow> None | t # _ \<Rightarrow> Some t)) st0 = (Inr (), s2) \<and>
      get_available_shifts env_ok s2 = (Inr [rec_ok 0 10, rec_ok 1 11], s3) \<and>
      cycle_body cfg0 env_ok st0 =
        seq (book_all cfg0 env_ok [rec_ok 0 10, rec_ok 1 11]) booking_statistics
          (logI INFO (''Booked '' @ show_nat (length (booked_shifts s3)) @ '' shifts so far'') s3)) \<and>
   fst (book_all cfg0 env_ok [rec_ok 0 10, rec_ok 1 11] st0) = Inr () \<and>
   length (booked_shifts (snd (book_all cfg0 env_ok [rec_ok 0 10, rec_ok 1 11] st0))) = 2 \<and>
   (\<exists>s1 ok s2. book_all cfg0 env_ok [rec_ok 0 10] st0 = (Inr (), s1) \<and>
      book_shift cfg0 env_ok (rec_ok 1 11) 0 (processing (rec_ok 1 11) s1) = (Inr ok, s2))"
proof -
  let ?srch = "search_shifts env_ok (Some (PREFERRED_LOCATION cfg0))
           (case PREFERRED_SHIFT_TYPES cfg0 of [] \<Rightarrow> None | t # _ \<Rightarrow> Some t)"
  have c: "MAX_SHIFTS_TO_BOOK cfg0 = 1" by (simp add: cfg0_def)
  have r: "run_continuous_booking 3 (cfg0\<lparr>MAX_SHIFTS_TO_BOOK := 0\<rparr>) env_ok st0 =
     run_continuous_booking 3 cfg0 env_ok st0"
    using booking_cap_unused[where n=3 and cfg=cfg0 and k=0 and env=env_ok and s=st0] by blast
  have ev: "fst (bind (seq (navigate_to_shifts env_ok) ?srch)
                  (\<lambda>_. get_available_shifts env_ok) st0) = Inr [rec_ok 0 10, rec_ok 1 11]"
    by (simp add: cycle_defs act_defs world_defs title_xpath_def location_xpath_def
        date_xpath_def time_xpath_def)
  obtain r2 s2 where n: "seq (navigate_to_shifts env_ok) ?srch st0 = (r2, s2)"
    by (cases "seq (navigate_to_shifts env_ok) ?srch st0")
  have r2: "r2 = Inr ()" using ev n by (cases r2) (simp_all add: bind_def)
  obtain r3 s3 where g: "get_available_shifts env_ok s2 = (r3, s3)"
    by (cases "get_available_shifts env_ok s2")
  have r3: "r3 = Inr [rec_ok 0 10, rec_ok 1 11]" using ev n r2 g by (simp add: bind_def)
  have n': "seq (navigate_to_shifts env_ok) ?srch st0 = (Inr (), s2)" using n r2 by simp
  have g': "get_available_shifts env_ok s2 = (Inr [rec_ok 0 10, rec_ok 1 11], s3)"
    using g r3 by simp
  have ne: "[rec_ok 0 10, rec_ok 1 11] \<noteq> []" by simp
  have b: "cycle_body cfg0 env_ok st0 =
        seq (book_all cfg0 env_ok [rec_ok 0 10, rec_ok 1 11]) booking_statistics
          (logI INFO (''Booked '' @ show_nat (length (booked_shifts s3)) @ '' shifts so far'') s3)"
    using booking_cap_unused[where cfg=cfg0 and env=env_ok and s=st0 and ?s2.0=s2
        and shifts="[rec_ok 0 10, rec_ok 1 11]" and ?s3.0=s3] n' g' ne
    by blast
  have f: "fst (book_all cfg0 env_ok [rec_ok 0 10, rec_ok 1 11] st0) = Inr ()"
    by (simp add: book_shift.simps book_defs act_defs world_defs Let_def)
  have l: "length (booked_shifts (snd (book_all cfg0 env_ok [rec_ok 0 10, rec_ok 1 11] st0))) = 2"
    by (simp add: book_shift.simps book_defs act_defs world_defs Let_def)
  obtain s' where f': "book_all cfg0 env_ok [rec_ok 0 10, rec_ok 1 11] st0 = (Inr (), s')"
    using f by (cases "book_all cfg0 env_ok [rec_ok 0 10, rec_ok 1 11] st0") auto
  have sp: "[rec_ok 0 10, rec_ok 1 11] = [rec_ok 0 10] @ rec_ok 1 11 # []" by simp
  have e: "\<exists>s1 ok s2. book_all cfg0 env_ok [rec_ok 0 10] st0 = (Inr (), s1) \<and>
      book_shift cfg0 env_ok (rec_ok 1 11) 0 (processing (rec_ok 1 11) s1) = (Inr ok, s2)"
    using booking_cap_unused[where cfg=cfg0 and env=env_ok and s=st0 and s'=s'
        and shifts="[rec_ok 0 10, rec_ok 1 11]" and pre="[rec_ok 0 10]" and shift="rec_ok 1 11"
        and post="[]"] f' sp
    by blast
  show ?thesis using c r n' g' b f l e by blast
qed

end
